theory Spec2Isabelle
  imports Complex_Main "HOL-Library.Sublist" "HOL-Library.AList"
begin

section \<open>JavaScript strings and numbers\<close>

text \<open>
  A JavaScript string is modelled as a \<^typ>\<open>string\<close>: a list of code units, here the
  ones below 256. An integer-valued JavaScript number is an \<^typ>\<open>int\<close>; \<^verbatim>\<open>NaN\<close> and
  \<^verbatim>\<open>undefined\<close> are \<^const>\<open>None\<close>. A thrown exception is the left summand of a result.
\<close>

datatype js_error = TypeError | ENOENT

text \<open>\<^verbatim>\<open>String.prototype.includes\<close>: does the needle occur at some position?\<close>

fun includes_str :: "string \<Rightarrow> string \<Rightarrow> bool" where
  "includes_str [] needle = (needle = [])"
| "includes_str (c # cs) needle = (prefix needle (c # cs) \<or> includes_str cs needle)"

text \<open>
  \<^verbatim>\<open>String.prototype.split\<close> with a string separator: the pieces between the
  occurrences of the separator, found from left to right; an empty separator splits into
  single code units. \<open>cur\<close> holds the piece being read, reversed.
\<close>

function splitFrom :: "string \<Rightarrow> string \<Rightarrow> string \<Rightarrow> string list" where
  "splitFrom sep cur s =
     (if s = [] then [rev cur]
      else if sep \<noteq> [] \<and> prefix sep s then rev cur # splitFrom sep [] (drop (length sep) s)
      else splitFrom sep (hd s # cur) (tl s))"
  by pat_completeness auto
termination
  by (relation "measure (\<lambda>(sep, cur, s). length s)") (auto simp: neq_Nil_conv)

definition split :: "string \<Rightarrow> string \<Rightarrow> string list" where
  "split s sep = (if sep = [] then map (\<lambda>c. [c]) s else splitFrom sep [] s)"

text \<open>Reading an array at an index: \<^verbatim>\<open>undefined\<close> past the end.\<close>

definition at_index :: "'a list \<Rightarrow> nat \<Rightarrow> 'a option" where
  "at_index xs i = (if i < length xs then Some (xs ! i) else None)"

text \<open>\<^verbatim>\<open>Array.prototype.indexOf\<close>: the first position of the element, or -1.\<close>

fun indexOf :: "'a list \<Rightarrow> 'a \<Rightarrow> int" where
  "indexOf [] x = -1"
| "indexOf (y # ys) x =
     (if y = x then 0 else (let i = indexOf ys x in if i < 0 then -1 else i + 1))"

text \<open>\<^verbatim>\<open>String.prototype.replace\<close> with a string pattern: the first occurrence only.\<close>

fun replace :: "string \<Rightarrow> string \<Rightarrow> string \<Rightarrow> string" where
  "replace [] pat rep = (if pat = [] then rep else [])"
| "replace (c # cs) pat rep =
     (if prefix pat (c # cs) then rep @ drop (length pat) (c # cs)
      else c # replace cs pat rep)"

text \<open>
  An integer in a template literal: its decimal digits, with a minus sign when negative
  (what \<^verbatim>\<open>Number::toString\<close> prints for an integer below \<open>10\<^sup>2\<^sup>1\<close> in size).
\<close>

definition digitChar :: "nat \<Rightarrow> char" where
  "digitChar d = char_of (48 + d)"

function digits :: "nat \<Rightarrow> string" where
  "digits n = (if n < 10 then [digitChar n] else digits (n div 10) @ [digitChar (n mod 10)])"
  by pat_completeness auto
termination
  by (relation "measure id") auto

definition numToString :: "int \<Rightarrow> string" where
  "numToString i = (if i < 0 then CHR ''-'' # digits (nat (- i)) else digits (nat i))"

definition optToString :: "int option \<Rightarrow> string" where
  "optToString v = (case v of None \<Rightarrow> ''undefined'' | Some i \<Rightarrow> numToString i)"

text \<open>The white space of \<^verbatim>\<open>\s\<close> and of \<^verbatim>\<open>parseInt\<close>, and the line terminators
  that \<^verbatim>\<open>.\<close> does not match, among the code units below 256.\<close>

definition isSpace :: "char \<Rightarrow> bool" where
  "isSpace c =
     (c \<in> set [CHR 0x09, CHR 0x0A, CHR 0x0B, CHR 0x0C, CHR 0x0D, CHR 0x20, CHR 0xA0])"

definition isLineTerminator :: "char \<Rightarrow> bool" where
  "isLineTerminator c = (c = CHR 0x0A \<or> c = CHR 0x0D)"

definition isWord :: "char \<Rightarrow> bool" where
  "isWord c =
     (let n = (of_char c :: nat)
      in (97 \<le> n \<and> n \<le> 122) \<or> (65 \<le> n \<and> n \<le> 90) \<or> (48 \<le> n \<and> n \<le> 57) \<or> n = 95)"

text \<open>
  \<^verbatim>\<open>parseInt\<close> with no radix: leading white space and a sign are skipped, a
  \<^verbatim>\<open>0x\<close> prefix selects radix 16, and the longest run of digits is read; with no
  digit the result is \<^verbatim>\<open>NaN\<close>.
\<close>

definition digitValue :: "char \<Rightarrow> nat" where
  "digitValue c =
     (let n = (of_char c :: nat)
      in if 48 \<le> n \<and> n \<le> 57 then n - 48
         else if 97 \<le> n \<and> n \<le> 122 then n - 87
         else if 65 \<le> n \<and> n \<le> 90 then n - 55
         else 36)"

definition readDigits :: "nat \<Rightarrow> string \<Rightarrow> nat option" where
  "readDigits radix s =
     (let ds = takeWhile (\<lambda>c. digitValue c < radix) s
      in if ds = [] then None else Some (foldl (\<lambda>n c. n * radix + digitValue c) 0 ds))"

definition parseInt :: "string \<Rightarrow> int option" where
  "parseInt str =
     (let s = dropWhile isSpace str;
          neg = (s \<noteq> [] \<and> hd s = CHR ''-'');
          s1 = (if s \<noteq> [] \<and> (hd s = CHR ''-'' \<or> hd s = CHR ''+'') then tl s else s);
          hex = (prefix ''0x'' s1 \<or> prefix ''0X'' s1);
          r = (if hex then readDigits 16 (drop 2 s1) else readDigits 10 s1)
      in map_option (\<lambda>n. if neg then - int n else int n) r)"

section \<open>Regular expressions\<close>

text \<open>
  The patterns of the source are written as data and run by a backtracking matcher. From
  a state (the text still to read, and the text captured by the pattern's group, if it
  has closed) \<open>matches\<close> lists the states in which the pattern can end, in the order
  in which a backtracking engine tries them: a greedy quantifier takes the longer reading
  first, a lazy one the shorter, and an iteration of a quantifier that reads nothing is
  refused. The first state of the list is the match that JavaScript reports. Each
  pattern of the source has one capture group, so one register is enough.
\<close>

datatype re =
    Lit string
  | Cls "char \<Rightarrow> bool"
  | Seq re re
  | Alt re re
  | Opt re
  | Star re
  | LazyStar re
  | Rep nat re
  | Grp re

type_synonym mstate = "string \<times> string option"

function (sequential) matches :: "re \<Rightarrow> mstate \<Rightarrow> mstate list" where
  "matches (Lit l) (s, cap) = (if prefix l s then [(drop (length l) s, cap)] else [])"
| "matches (Cls P) (s, cap) =
     (case s of [] \<Rightarrow> [] | c # cs \<Rightarrow> if P c then [(cs, cap)] else [])"
| "matches (Seq a b) st = concat (map (matches b) (matches a st))"
| "matches (Alt a b) st = matches a st @ matches b st"
| "matches (Opt a) (s, cap) =
     concat (map (\<lambda>st'. if length (fst st') < length s then [st'] else [])
                 (matches a (s, cap))) @ [(s, cap)]"
| "matches (Star a) (s, cap) =
     concat (map (\<lambda>st'. if length (fst st') < length s then matches (Star a) st' else [])
                 (matches a (s, cap))) @ [(s, cap)]"
| "matches (LazyStar a) (s, cap) =
     (s, cap) #
     concat (map (\<lambda>st'. if length (fst st') < length s then matches (LazyStar a) st' else [])
                 (matches a (s, cap)))"
| "matches (Rep 0 a) st = [st]"
| "matches (Rep (Suc n) a) st = concat (map (matches (Rep n a)) (matches a st))"
| "matches (Grp a) (s, cap) =
     map (\<lambda>(s', _). (s', Some (take (length s - length s') s))) (matches a (s, cap))"
  by pat_completeness auto
termination
  by (relation "inv_image (less_than <*lex*> less_than <*lex*> less_than)
        (\<lambda>(r, st). (size r, (case r of Rep n _ \<Rightarrow> n | _ \<Rightarrow> 0), length (fst st)))") auto

text \<open>A match attempt at the start of \<open>s\<close>: the matched text and the captured group.\<close>

definition exec_at :: "re \<Rightarrow> string \<Rightarrow> (string \<times> string option) option" where
  "exec_at r s =
     (case matches r (s, None) of [] \<Rightarrow> None
      | (rest, cap) # _ \<Rightarrow> Some (take (length s - length rest) s, cap))"

text \<open>\<^verbatim>\<open>String.prototype.match\<close> with a pattern that has no flag: the attempt is made
  at each position in turn, from the left, and the first success is the result.\<close>

fun search :: "re \<Rightarrow> string \<Rightarrow> (string \<times> string option) option" where
  "search r [] = exec_at r []"
| "search r (c # cs) =
     (case exec_at r (c # cs) of Some m \<Rightarrow> Some m | None \<Rightarrow> search r cs)"

text \<open>
  \<^verbatim>\<open>String.prototype.replace\<close> with a pattern that has the \<^verbatim>\<open>g\<close> flag: every
  match, from the left, is replaced; after a match that read nothing the next code unit
  is copied.
\<close>

function replaceAll :: "re \<Rightarrow> string \<Rightarrow> string \<Rightarrow> string" where
  "replaceAll r rep s =
     (case exec_at r s of
        None \<Rightarrow> (case s of [] \<Rightarrow> [] | c # cs \<Rightarrow> c # replaceAll r rep cs)
      | Some (m, _) \<Rightarrow>
          (if m = [] then (case s of [] \<Rightarrow> rep | c # cs \<Rightarrow> rep @ c # replaceAll r rep cs)
           else rep @ replaceAll r rep (drop (length m) s)))"
  by pat_completeness auto
termination
  by (relation "measure (\<lambda>(r, rep, s). length s)")
     (auto simp: exec_at_def split: list.splits)

section \<open>The URL extractor\<close>

text \<open>
  \<^verbatim>\<open>/(https?:\/\/(?:(?:www|music)\.)?(?:youtube\.com\/(?:watch\?v=|shorts\/)|youtu\.be\/)[\w-]{11}[^\s]*)/\<close>
\<close>

definition youtubeHost :: re where
  "youtubeHost =
     Seq (Lit ''http'') (Seq (Opt (Lit ''s'')) (Seq (Lit ''://'')
       (Seq (Opt (Seq (Alt (Lit ''www'') (Lit ''music'')) (Lit ''.'')))
            (Alt (Seq (Lit ''youtube.com/'') (Alt (Lit ''watch?v='') (Lit ''shorts/'')))
                 (Lit ''youtu.be/'')))))"

definition youtubeRegex :: re where
  "youtubeRegex =
     Grp (Seq youtubeHost
            (Seq (Rep 11 (Cls (\<lambda>c. isWord c \<or> c = CHR ''-'')))
                 (Star (Cls (\<lambda>c. \<not> isSpace c)))))"

text \<open>\<^verbatim>\<open>extractYoutubeURL\<close>: \<^verbatim>\<open>match ? match[0] : undefined\<close>. The argument of the
  source is typed \<^verbatim>\<open>string\<close>; a caller that passes \<^verbatim>\<open>undefined\<close> makes
  \<^verbatim>\<open>text.match\<close> throw, which \<open>extractYoutubeURL_arg\<close> records.\<close>

definition extractYoutubeURL :: "string \<Rightarrow> string option" where
  "extractYoutubeURL text = map_option fst (search youtubeRegex text)"

definition extractYoutubeURL_arg :: "string option \<Rightarrow> js_error + string option" where
  "extractYoutubeURL_arg arg =
     (case arg of None \<Rightarrow> Inl TypeError | Some text \<Rightarrow> Inr (extractYoutubeURL text))"

section \<open>Error messages\<close>

datatype errorCategory = atGettingInfo | atDownload | badURL

definition newline :: string where
  "newline = [CHR 0x0A]"

definition errorMessages :: "errorCategory \<Rightarrow> string" where
  "errorMessages cat =
     (case cat of
        atGettingInfo \<Rightarrow>
          ''Failed to obtain info from a YouTube video. Try again, and if '' @
          ''not some coding fuckup, the error is either:'' @ newline @ newline @
          ''        1. Network connection issue, try again soon'' @ newline @ newline @
          ''        2. An issue with how YouTube processes YT-DLP requests '' @
          ''- try again, and if the error repeats means I have to add some '' @
          ''workarounds.''
      | atDownload \<Rightarrow>
          ''Encountered an error when downloading the file, try again; if '' @
          ''it repeats, it'' @ [CHR 0x27] @ ''s most likely either one of these:'' @
          newline @ newline @
          ''        1. <b>You tried to download a large file which either '' @
          ''takes 500 seconds to properly upload or weights more than 2GB.</b> '' @ newline @
          ''        Both are internal limitations that I can'' @ [CHR 0x27] @
          ''t change, so reduce the filesize or use /format to simply format '' @
          ''the YouTube link'' @ newline @
          ''        and send it this way.'' @ newline @ newline @
          ''        2. <b>A code issue on my size.</b>'' @ newline @ newline @
          ''        3. <b>A deeper issue with YT-DLP.</b> This is the library '' @
          ''I use for downloading the video, and I have no control over it.'' @ newline @
          ''        If it fails consistently, it most likely indicates a '' @
          ''change in how YouTube processes YT-DLP requests and possibly mean '' @ newline @
          ''        that the bot can no longer function.''
      | badURL \<Rightarrow>
          ''The URL you inputted is invalid. The bot only accepts valid '' @
          ''YouTube links.'')"

text \<open>\<^verbatim>\<open>/<[^>]*>/g\<close>, the tags that \<^verbatim>\<open>fullErrorMessage\<close> removes from the error's
  text. The argument \<open>e\<close> is \<^verbatim>\<open>String(e)\<close>, the text of the error.\<close>

definition tagRegex :: re where
  "tagRegex = Seq (Lit ''<'') (Seq (Star (Cls (\<lambda>c. c \<noteq> CHR ''>''))) (Lit ''>''))"

definition fullErrorMessage :: "errorCategory \<Rightarrow> string \<Rightarrow> string" where
  "fullErrorMessage errorCategory e =
     (let sanitizedError = replaceAll tagRegex [] e
      in errorMessages errorCategory @ newline @ ''Error log: '' @ sanitizedError)"

text \<open>
  The \<^verbatim>\<open>catch\<close> of \<^verbatim>\<open>URLMessageHandler.handle\<close> and the one of
  \<^verbatim>\<open>FormatCommandHandler.handle\<close>; each gives the text handed to \<^verbatim>\<open>inform\<close>.
\<close>

definition URLMessageHandler_catch :: "string \<Rightarrow> string" where
  "URLMessageHandler_catch e =
     (if includes_str e ''not a valid URL'' then fullErrorMessage badURL e
      else fullErrorMessage atGettingInfo e)"

definition FormatCommandHandler_catch :: "string \<Rightarrow> string" where
  "FormatCommandHandler_catch e =
     (if includes_str e ''not a valid URL'' then fullErrorMessage badURL e
      else fullErrorMessage atGettingInfo e)"

section \<open>The handlers of a message\<close>

text \<open>
  What a constructor leaves behind: a handler marked invalid, with the reply it sent, or
  a valid handler holding the URL.
\<close>

datatype handler = Invalid string | Valid string

definition guidance :: string where
  "guidance =
     ''I can only process YouTube links. Send any YouTube link to receive an '' @
     ''auto-formatted response, or request a specific result using commands.''"

text \<open>\<^verbatim>\<open>URLMessageHandler\<close>: \<^verbatim>\<open>if (!url)\<close> holds for \<^verbatim>\<open>undefined\<close> and for the
  empty string.\<close>

definition URLMessageHandler :: "string \<Rightarrow> handler" where
  "URLMessageHandler text =
     (case extractYoutubeURL text of
        None \<Rightarrow> Invalid guidance
      | Some url \<Rightarrow> if url = [] then Invalid guidance else Valid url)"

text \<open>\<^verbatim>\<open>FormatCommandHandler\<close>: the extractor is applied to
  \<^verbatim>\<open>text.split("/format ")[1]\<close>, and the test is \<^verbatim>\<open>url === undefined\<close>.\<close>

definition FormatCommandHandler :: "string \<Rightarrow> js_error + handler" where
  "FormatCommandHandler text =
     (case extractYoutubeURL_arg (at_index (split text ''/format '') 1) of
        Inl err \<Rightarrow> Inl err
      | Inr None \<Rightarrow> Inr (Invalid guidance)
      | Inr (Some url) \<Rightarrow> Inr (Valid url))"

section \<open>Quality tiers\<close>

text \<open>
  \<^verbatim>\<open>allowedFormats\<close> and \<^verbatim>\<open>QUALITY_LEVELS\<close> of \<^verbatim>\<open>bot.ts\<close>, as the source
  lists them. A height is a JavaScript number read from the tool's JSON; the model takes
  the integer ones.
\<close>

definition allowedFormats :: "string list" where
  "allowedFormats =
     [''144p'', ''240p'', ''360p'', ''480p'', ''720p'', ''1080p'', ''1440p'', ''4K'']"

definition QUALITY_LEVELS :: "(int \<times> string) list" where
  "QUALITY_LEVELS =
     [(360, ''240p''), (480, ''360p''), (720, ''480p''), (1080, ''720p''),
      (1440, ''1080p''), (2160, ''1440p''), (4320, ''4K'')]"

text \<open>The \<^verbatim>\<open>for ... of\<close> loop of \<^verbatim>\<open>getQualityID\<close>: the first level whose threshold
  exceeds the height gives the label; when the loop ends, the label is 4K.\<close>

fun firstLevel :: "(int \<times> string) list \<Rightarrow> int \<Rightarrow> string" where
  "firstLevel [] height = ''4K''"
| "firstLevel ((threshold, label) # levels) height =
     (if height < threshold then label else firstLevel levels height)"

definition getQualityID :: "int \<Rightarrow> string" where
  "getQualityID height = firstLevel QUALITY_LEVELS height"

section \<open>The description of a video\<close>

text \<open>The remainder of JavaScript takes the sign of the dividend.\<close>

definition js_rem :: "int \<Rightarrow> int \<Rightarrow> int" where
  "js_rem a b = sgn a * (\<bar>a\<bar> mod \<bar>b\<bar>)"

definition getDurationString :: "int \<Rightarrow> string" where
  "getDurationString totalSeconds =
     (let seconds = js_rem totalSeconds 60;
          hours = totalSeconds div 3600;
          minutes = js_rem totalSeconds 3600 div 60
      in if hours > 0
         then numToString hours @ ''h '' @ numToString minutes @ ''m '' @
              numToString seconds @ ''s''
         else numToString minutes @ ''m '' @ numToString seconds @ ''s'')"

record format_entry =
  format_id :: string
  vcodec :: string
  acodec :: string
  filesize :: "int option"
  height :: "int option"
  width :: "int option"

record video_info =
  info_id :: string
  title :: string
  uploader :: string
  duration :: int
  formats :: "format_entry list"

definition generateDescription :: "video_info \<Rightarrow> string" where
  "generateDescription info =
     ''<b>['' @ getDurationString (duration info) @ '']</b> '' @ title info @ newline @
     ''By <b>'' @ uploader info @ ''</b>''"

section \<open>The format selector\<close>

text \<open>
  A number that may be missing is truthy when it is there and is not 0. \<open>num\<close> reads
  a field behind the non-null assertion \<^verbatim>\<open>!\<close> of the source; it is applied to fields
  that the filters have found truthy.
\<close>

definition truthy :: "int option \<Rightarrow> bool" where
  "truthy v = (case v of None \<Rightarrow> False | Some n \<Rightarrow> n \<noteq> 0)"

definition num :: "int option \<Rightarrow> int" where
  "num v = (case v of None \<Rightarrow> 0 | Some n \<Rightarrow> n)"

type_synonym ladder_entry = "string \<times> int \<times> int \<times> int option"

record processing_result =
  video_id :: string
  existingFormats :: "(string \<times> ladder_entry) list"
  largest_audio :: "format_entry option"
  videoDescr :: string

text \<open>
  \<^verbatim>\<open>processVideoInfo\<close>. \<^verbatim>\<open>Array.prototype.sort\<close> is stable, as \<^const>\<open>sort_key\<close> is;
  the comparator \<^verbatim>\<open>a.filesize - b.filesize\<close> sorts by rising file size and
  \<^verbatim>\<open>b.filesize - a.filesize\<close> by falling file size. \<^verbatim>\<open>existingFormats\<close> is an
  object whose keys are tier labels: an assignment to a key it has replaces the value
  in place, an assignment to a new key adds it at the end, which is \<^const>\<open>AList.update\<close>.
  The description is also written to the file \<^verbatim>\<open><video_id>-descr.txt\<close>; a failure of
  that write is logged and nothing else.
\<close>

definition processVideoInfo :: "string \<Rightarrow> video_info \<Rightarrow> processing_result" where
  "processVideoInfo url info =
     (let videoformats =
            sort_key (\<lambda>f. num (filesize f))
              (filter (\<lambda>f. vcodec f \<noteq> ''none'' \<and> truthy (filesize f) \<and> truthy (height f))
                 (formats info));
          audioformats =
            sort_key (\<lambda>f. - num (filesize f))
              (filter (\<lambda>f. acodec f \<noteq> ''none'' \<and> truthy (filesize f)) (formats info))
      in \<lparr> video_id = info_id info,
           existingFormats =
             foldl (\<lambda>existing f.
                      AList.update (getQualityID (num (height f)))
                        (format_id f, num (filesize f), num (height f), width f) existing)
                   [] videoformats,
           largest_audio = at_index audioformats 0,
           videoDescr = generateDescription info @ newline @ url \<rparr>)"

section \<open>The menu builder\<close>

text \<open>
  \<^verbatim>\<open>formatSize\<close>. The source computes in floating point; the model computes with exact
  rationals, which is what the source's operations give on a byte count below \<open>2\<^sup>5\<^sup>3\<close>
  (divisions by powers of two are exact, and so is \<^verbatim>\<open>toFixed\<close>, which rounds the exact
  value, ties upwards). \<open>floorLog1024 n\<close> is \<^verbatim>\<open>Math.floor(Math.log(n) / Math.log(1024))\<close>
  for a byte count \<open>n\<close>, so the index \<open>i\<close> of the source, taken of \<open>n / 1024\<close>, is one
  less. \<^verbatim>\<open>parseFloat\<close> of the digits that \<^verbatim>\<open>toFixed(1)\<close> printed, put into the
  template, prints a whole number without its decimal. Reading \<^verbatim>\<open>sizes\<close> outside the
  array gives \<^verbatim>\<open>undefined\<close>. Of a byte count that is not positive the logarithm is
  infinite or \<^verbatim>\<open>NaN\<close>, and the text is \<^verbatim>\<open>NaNundefined\<close>.
\<close>

function floorLog1024 :: "nat \<Rightarrow> nat" where
  "floorLog1024 n = (if n < 1024 then 0 else Suc (floorLog1024 (n div 1024)))"
  by pat_completeness auto
termination
  by (relation "measure id") auto

definition sizes :: "string list" where
  "sizes = [''KB'', ''MB'', ''GB'']"

definition toFixed1 :: "rat \<Rightarrow> int" where
  "toFixed1 x = \<lfloor>x * 10 + 1 / 2\<rfloor>"

definition printTenths :: "int \<Rightarrow> string" where
  "printTenths t =
     (if t mod 10 = 0 then numToString (t div 10)
      else numToString (t div 10) @ ''.'' @ numToString (t mod 10))"

definition formatSize :: "int \<Rightarrow> string" where
  "formatSize bytes =
     (if bytes \<le> 0 then ''NaNundefined''
      else
        let kb = of_int bytes / (1024 :: rat);
            i = int (floorLog1024 (nat bytes)) - 1;
            formattedSize = toFixed1 (kb / (1024 powi i))
        in printTenths formattedSize @
           (if 0 \<le> i then case at_index sizes (nat i) of None \<Rightarrow> ''undefined'' | Some u \<Rightarrow> u
            else ''undefined''))"

text \<open>
  A button of the menu: its text and its callback data. The text of the first button is
  the word Music and a size, the text of a tier's button is the tier's label and a size.
\<close>

datatype button_text = MusicText string | TierText string string

record button =
  btn_text :: button_text
  callback_data :: string

definition musicData :: "video_info \<Rightarrow> int \<Rightarrow> string" where
  "musicData info user_msg_id =
     info_id info @ ''|ba|'' @ numToString (duration info) @ ''|||'' @ numToString user_msg_id"

definition tierData :: "string \<Rightarrow> video_info \<Rightarrow> int \<Rightarrow> ladder_entry \<Rightarrow> string" where
  "tierData vid info user_msg_id entry =
     (case entry of (fid, fsize, h, w) \<Rightarrow>
        vid @ ''|'' @ fid @ ''+ba|'' @ numToString (duration info) @ ''|'' @ numToString h @
        ''|'' @ optToString w @ ''|'' @ numToString user_msg_id)"

text \<open>
  \<^verbatim>\<open>buildInlineKeyboard\<close>: the buttons in their order, each tier's button on a row of its
  own. Reading \<^verbatim>\<open>largest_audio.filesize\<close> throws when \<^verbatim>\<open>largest_audio\<close> is
  \<^verbatim>\<open>undefined\<close>.
\<close>

definition buildInlineKeyboard ::
  "int \<Rightarrow> video_info \<Rightarrow> processing_result \<Rightarrow> js_error + button list" where
  "buildInlineKeyboard user_msg_id info processingResult =
     (case largest_audio processingResult of
        None \<Rightarrow> Inl TypeError
      | Some audio \<Rightarrow>
          Inr (\<lparr> btn_text = MusicText (formatSize (num (filesize audio))),
                  callback_data = musicData info user_msg_id \<rparr> #
               map (\<lambda>(res, entry).
                      \<lparr> btn_text =
                          TierText res
                            (formatSize (fst (snd entry) + num (filesize audio))),
                        callback_data =
                          tierData (video_id processingResult) info user_msg_id entry \<rparr>)
                   (sort_key (\<lambda>(res, entry). indexOf allowedFormats res)
                      (existingFormats processingResult))))"

section \<open>The callback query handler\<close>

text \<open>
  The fields of \<^verbatim>\<open>CallbackQueryHandler\<close>, named \<open>this_\<close> and the field's name.
  Destructuring the pieces of the callback data gives \<^verbatim>\<open>undefined\<close> for a piece that is
  not there; the first piece is always there. \<^verbatim>\<open>path.join\<close> of the working directory and
  a file name is modelled as the two joined by a slash.
\<close>

record callback_handler =
  this_video_id :: string
  this_original_user_msg_id :: "int option"
  this_url :: string
  this_format :: "string option"
  this_duration :: "string option"
  this_height :: "string option"
  this_width :: "string option"
  this_isAudio :: bool
  this_storedFileName :: string
  this_storedFilePath :: string
  this_thumbFilePath :: string
  this_descrFilePath :: string

definition falsy :: "string option \<Rightarrow> bool" where
  "falsy v = (v = None \<or> v = Some [])"

definition parseIntOf :: "string option \<Rightarrow> int option" where
  "parseIntOf v = parseInt (case v of None \<Rightarrow> ''undefined'' | Some s \<Rightarrow> s)"

definition path_join :: "string \<Rightarrow> string \<Rightarrow> string" where
  "path_join dir name = dir @ ''/'' @ name"

definition CallbackQueryHandler :: "string \<Rightarrow> string \<Rightarrow> callback_handler" where
  "CallbackQueryHandler cwd data =
     (let parts = split data ''|'';
          vid = (case at_index parts 0 of None \<Rightarrow> ''undefined'' | Some v \<Rightarrow> v);
          h = at_index parts 3;
          w = at_index parts 4;
          audio = (falsy h \<and> falsy w);
          storedFileName = vid @ ''.'' @ (if audio then ''m4a'' else ''mp4'');
          storedFilePath = path_join cwd storedFileName
      in \<lparr> this_video_id = vid,
           this_original_user_msg_id = parseIntOf (at_index parts 5),
           this_url = ''https://youtube.com/watch?v='' @ vid,
           this_format = at_index parts 1,
           this_duration = at_index parts 2,
           this_height = h,
           this_width = w,
           this_isAudio = audio,
           this_storedFileName = storedFileName,
           this_storedFilePath = storedFilePath,
           this_thumbFilePath =
             (if audio then storedFilePath @ ''.jpg'' else path_join cwd (vid @ ''.jpg'')),
           this_descrFilePath = path_join cwd (vid @ ''-descr.txt'') \<rparr>)"

section \<open>The delivery assembler\<close>

text \<open>
  The files of the working directory: a path has a content or is not there.
  \<^verbatim>\<open>readFileSync\<close> of a path that is not there throws, and \<^verbatim>\<open>send\<close> catches it.
\<close>

type_synonym files = "string \<rightharpoonup> string"

text \<open>\<^verbatim>\<open>/^<b>\[.*?\]<\/b>\s*(.*)/\<close> and \<^verbatim>\<open>/^By <b>(.*?)<\/b>/\<close>. Neither has the
  \<^verbatim>\<open>m\<close> flag: \<^verbatim>\<open>^\<close> holds at the start of the text only, so the one attempt is
  \<^const>\<open>exec_at\<close>.\<close>

definition dot :: "char \<Rightarrow> bool" where
  "dot c = (\<not> isLineTerminator c)"

definition titleRegex :: re where
  "titleRegex =
     Seq (Lit ''<b>['') (Seq (LazyStar (Cls dot)) (Seq (Lit '']</b>'')
       (Seq (Star (Cls isSpace)) (Grp (Star (Cls dot))))))"

definition authorRegex :: re where
  "authorRegex = Seq (Lit ''By <b>'') (Seq (Grp (LazyStar (Cls dot))) (Lit ''</b>''))"

text \<open>\<^verbatim>\<open>match?.[1]\<close>: the group of a match, \<^verbatim>\<open>undefined\<close> without one.\<close>

definition group1 :: "(string \<times> string option) option \<Rightarrow> string option" where
  "group1 m = (case m of None \<Rightarrow> None | Some (_, cap) \<Rightarrow> cap)"

text \<open>\<^verbatim>\<open>a || b\<close> on strings: \<open>b\<close> when \<open>a\<close> is \<^verbatim>\<open>undefined\<close> or empty.\<close>

definition or_else :: "string option \<Rightarrow> string \<Rightarrow> string" where
  "or_else a b = (case a of None \<Rightarrow> b | Some v \<Rightarrow> if v = [] then b else v)"

datatype message =
    VideoMessage string string "int option" "int option" "int option" string
  | AudioMessage string string string "int option" string

text \<open>
  \<^verbatim>\<open>send\<close>, up to the message it hands to the transport: a video message (file, cover,
  height, width, duration, caption) or an audio message (file, title, performer,
  duration, thumbnail). Calling \<^verbatim>\<open>match\<close> on a line that the description does not
  have throws.
\<close>

definition send :: "callback_handler \<Rightarrow> files \<Rightarrow> js_error + message" where
  "send this fs =
     (let (videoDescr, hasDescription) =
            (case fs (this_descrFilePath this) of
               None \<Rightarrow> ([], False) | Some content \<Rightarrow> (content, True))
      in if \<not> this_isAudio this
         then Inr (VideoMessage (this_storedFilePath this) (this_thumbFilePath this)
                     (parseIntOf (this_height this)) (parseIntOf (this_width this))
                     (parseIntOf (this_duration this)) videoDescr)
         else if hasDescription
         then
           (let descrLines = split videoDescr newline
            in case at_index descrLines 0 of
                 None \<Rightarrow> Inl TypeError
               | Some line0 \<Rightarrow>
                   (let titleMatch = exec_at titleRegex line0;
                        title = or_else (group1 titleMatch) (this_video_id this)
                    in case at_index descrLines 1 of
                         None \<Rightarrow> Inl TypeError
                       | Some line1 \<Rightarrow>
                           (let authorMatch = exec_at authorRegex line1;
                                author =
                                  or_else
                                    (map_option (\<lambda>a. replace a '' - Topic'' [])
                                       (group1 authorMatch))
                                    ''Unknown Artist''
                            in Inr (AudioMessage (this_storedFilePath this) title author
                                      (parseIntOf (this_duration this))
                                      (this_thumbFilePath this)))))
         else Inr (AudioMessage (this_storedFilePath this) [] []
                     (parseIntOf (this_duration this)) (this_thumbFilePath this)))"

section \<open>The cleanup manager\<close>

text \<open>
  \<^verbatim>\<open>unlinkSync\<close> removes a file that is there and throws for one that is not.
  \<^verbatim>\<open>cleanUpFiles\<close> makes its three calls inside one \<^verbatim>\<open>try\<close>: a statement of the
  block runs when none before it has thrown, and the \<^verbatim>\<open>catch\<close> logs the error that
  was thrown. The state keeps the files, the paths on which \<^verbatim>\<open>unlinkSync\<close> was called,
  in order, and the error that ended the block, if one did.
\<close>

definition unlinkSync :: "string \<Rightarrow> files \<Rightarrow> js_error + files" where
  "unlinkSync path fs = (if fs path = None then Inl ENOENT else Inr (fs(path := None)))"

record cleanup_state =
  disk :: files
  attempted :: "string list"
  thrown :: "js_error option"

definition in_try :: "string \<Rightarrow> cleanup_state \<Rightarrow> cleanup_state" where
  "in_try path st =
     (if thrown st \<noteq> None then st
      else case unlinkSync path (disk st) of
             Inl err \<Rightarrow> st\<lparr> attempted := attempted st @ [path], thrown := Some err \<rparr>
           | Inr fs' \<Rightarrow> st\<lparr> disk := fs', attempted := attempted st @ [path] \<rparr>)"

definition cleanUpFiles :: "callback_handler \<Rightarrow> files \<Rightarrow> cleanup_state" where
  "cleanUpFiles this fs =
     in_try (this_descrFilePath this)
       (in_try (this_thumbFilePath this)
          (in_try (this_storedFilePath this)
             \<lparr> disk = fs, attempted = [], thrown = None \<rparr>))"

section \<open>The shape of a YouTube link\<close>

text \<open>
  What the extractor is to recognise, stated without the pattern: a link starts where one
  of the prefixes stands (scheme, an optional \<^verbatim>\<open>www.\<close> or \<^verbatim>\<open>music.\<close>, and
  \<^verbatim>\<open>youtube.com/watch?v=\<close>, \<^verbatim>\<open>youtube.com/shorts/\<close> or \<^verbatim>\<open>youtu.be/\<close>) and eleven
  characters of a video id follow it.
\<close>

definition url_prefixes :: "string list" where
  "url_prefixes =
     [scheme @ ''://'' @ sub @ site.
        scheme \<leftarrow> [''https'', ''http''],
        sub \<leftarrow> [''www.'', ''music.'', []],
        site \<leftarrow> [''youtube.com/watch?v='', ''youtube.com/shorts/'', ''youtu.be/'']]"

definition isIdChar :: "char \<Rightarrow> bool" where
  "isIdChar c = (isWord c \<or> c = CHR ''-'')"

definition is_url_start :: "string \<Rightarrow> bool" where
  "is_url_start s =
     (\<exists>p \<in> set url_prefixes. prefix p s \<and> 11 \<le> length s - length p \<and>
        (\<forall>c \<in> set (take 11 (drop (length p) s)). isIdChar c))"

definition nonSpace :: "char \<Rightarrow> bool" where
  "nonSpace c = (\<not> isSpace c)"

text \<open>A pattern that reads exactly the words of a finite list, whatever their order of
  preference, and leaves the capture register alone.\<close>

definition finlang :: "re \<Rightarrow> string list \<Rightarrow> bool" where
  "finlang r ws =
     (\<forall>s c t c'. (t, c') \<in> set (matches r (s, c)) \<longleftrightarrow> (\<exists>w \<in> set ws. s = w @ t) \<and> c' = c)"

section \<open>Unfolding the loops\<close>

text \<open>The equations of the functions defined by general recursion are applied one step
  at a time, through the lemmas below, and are no rewrite rules.\<close>

declare splitFrom.simps [simp del] digits.simps [simp del] floorLog1024.simps [simp del]
  replaceAll.simps [simp del]

section \<open>Splitting and joining\<close>

lemma splitFrom_Nil: "splitFrom sep cur [] = [rev cur]"
  by (simp add: splitFrom.simps)

lemma splitFrom_Cons:
  "splitFrom sep cur (c # cs) =
     (if sep \<noteq> [] \<and> prefix sep (c # cs)
      then rev cur # splitFrom sep [] (drop (length sep) (c # cs))
      else splitFrom sep (c # cur) cs)"
  by (subst splitFrom.simps) simp

lemma splitFrom_no_sep:
  "x \<notin> set a \<Longrightarrow> splitFrom [x] cur a = [rev cur @ a]"
  by (induction a arbitrary: cur) (auto simp: splitFrom_Nil splitFrom_Cons)

lemma splitFrom_piece:
  "x \<notin> set a \<Longrightarrow> splitFrom [x] cur (a @ x # rest) = (rev cur @ a) # splitFrom [x] [] rest"
  by (induction a arbitrary: cur) (auto simp: splitFrom_Cons)

lemma split_piece:
  "x \<notin> set a \<Longrightarrow> split (a @ x # rest) [x] = a # split rest [x]"
  by (simp add: split_def splitFrom_piece)

lemma split_last: "x \<notin> set a \<Longrightarrow> split a [x] = [a]"
  by (simp add: split_def splitFrom_no_sep)

lemma splitFrom_not_Nil: "splitFrom sep cur s \<noteq> []"
proof (induction s arbitrary: cur)
  case Nil
  show ?case by (simp add: splitFrom_Nil)
next
  case (Cons c cs)
  then show ?case by (simp add: splitFrom_Cons)
qed

lemma split_not_Nil: "split s [x] \<noteq> []"
  by (simp add: split_def splitFrom_not_Nil)

lemma split_two_lines:
  assumes "x \<in> set s"
  shows "\<exists>l0 l1 ls. split s [x] = l0 # l1 # ls"
proof -
  from assms obtain a b where ab: "s = a @ x # b" "x \<notin> set a"
    using split_list_first by metis
  obtain l1 ls where "split b [x] = l1 # ls"
    using split_not_Nil by (cases "split b [x]") auto
  then show ?thesis using ab by (simp add: split_piece)
qed

lemma split6:
  assumes "CHR ''|'' \<notin> set a" "CHR ''|'' \<notin> set b" "CHR ''|'' \<notin> set c"
    "CHR ''|'' \<notin> set d" "CHR ''|'' \<notin> set e" "CHR ''|'' \<notin> set f"
  shows "split (a @ ''|'' @ b @ ''|'' @ c @ ''|'' @ d @ ''|'' @ e @ ''|'' @ f) ''|''
           = [a, b, c, d, e, f]"
  using assms by (simp add: split_piece split_last)

section \<open>Digits\<close>

lemma of_char_digitChar: "d < 10 \<Longrightarrow> (of_char (digitChar d) :: nat) = 48 + d"
  by (simp add: digitChar_def)

lemma digitValue_digitChar: "d < 10 \<Longrightarrow> digitValue (digitChar d) = d"
  by (simp add: digitValue_def of_char_digitChar)

lemma digits_set: "c \<in> set (digits n) \<Longrightarrow> \<exists>d<10. c = digitChar d"
proof (induction n rule: digits.induct)
  case (1 n)
  show ?case
  proof (cases "n < 10")
    case True
    with "1.prems" show ?thesis by (subst (asm) digits.simps) auto
  next
    case False
    with "1.prems" have "c \<in> set (digits (n div 10)) \<or> c = digitChar (n mod 10)"
      by (subst (asm) digits.simps) auto
    with False "1.IH" show ?thesis
      by (metis mod_less_divisor zero_less_numeral)
  qed
qed

lemma digits_not_Nil: "digits n \<noteq> []"
  by (subst digits.simps) simp

lemma foldl_digits:
  "foldl (\<lambda>n c. n * 10 + digitValue c) 0 (digits n) = n"
proof (induction n rule: digits.induct)
  case (1 n)
  show ?case
  proof (cases "n < 10")
    case True
    then show ?thesis by (subst digits.simps) (simp add: digitValue_digitChar)
  next
    case False
    with "1.IH" show ?thesis
      by (subst digits.simps) (simp add: digitValue_digitChar)
  qed
qed

lemma readDigits_digits: "readDigits 10 (digits n) = Some n"
proof -
  have "takeWhile (\<lambda>c. digitValue c < 10) (digits n) = digits n"
    by (rule takeWhile_eq_all_conv[THEN iffD2]) (auto dest!: digits_set simp: digitValue_digitChar)
  then show ?thesis
    unfolding readDigits_def Let_def by (simp only: digits_not_Nil foldl_digits if_False)
qed

lemma digitChar_neq:
  "d < 10 \<Longrightarrow> digitChar d \<noteq> CHR ''|'' \<and> digitChar d \<noteq> CHR ''-'' \<and> digitChar d \<noteq> CHR ''+''
     \<and> \<not> isSpace (digitChar d) \<and> digitChar d \<noteq> CHR ''x'' \<and> digitChar d \<noteq> CHR ''X''"
proof -
  assume "d < 10"
  then have "(of_char (digitChar d) :: nat) = 48 + d" by (rule of_char_digitChar)
  moreover have "c \<in> set (''|-+xX'' @ [CHR 0x09, CHR 0x0A, CHR 0x0B, CHR 0x0C, CHR 0x0D, CHR 0x20, CHR 0xA0])
     \<Longrightarrow> (of_char c :: nat) \<notin> {48..<58}" for c
    by auto
  ultimately show ?thesis using \<open>d < 10\<close>
    by (fastforce simp: isSpace_def)
qed

lemma digits_no_bar: "CHR ''|'' \<notin> set (digits n)"
proof
  assume "CHR ''|'' \<in> set (digits n)"
  then obtain d where "d < 10" "CHR ''|'' = digitChar d" using digits_set by blast
  then show False using digitChar_neq by metis
qed

lemma numToString_no_bar: "CHR ''|'' \<notin> set (numToString i)"
  by (simp add: numToString_def digits_no_bar)

lemma optToString_no_bar: "CHR ''|'' \<notin> set (optToString w)"
  by (cases w) (simp_all add: optToString_def numToString_no_bar)

lemma digits_hd: "\<exists>d<10. \<exists>ds. digits n = digitChar d # ds"
proof -
  obtain c cs where eq: "digits n = c # cs"
    using digits_not_Nil by (cases "digits n") auto
  then have "c \<in> set (digits n)" by simp
  then obtain d where "d < 10" "c = digitChar d" using digits_set by blast
  with eq show ?thesis by blast
qed

lemma digits_no_x: "CHR ''x'' \<notin> set (digits n)" "CHR ''X'' \<notin> set (digits n)"
proof -
  have "c \<noteq> CHR ''x'' \<and> c \<noteq> CHR ''X''" if "c \<in> set (digits n)" for c
  proof -
    from that obtain d where "d < 10" "c = digitChar d" using digits_set by blast
    then show ?thesis using digitChar_neq by metis
  qed
  then show "CHR ''x'' \<notin> set (digits n)" "CHR ''X'' \<notin> set (digits n)" by blast+
qed

lemma prefix_snd_mem: "prefix [a, b] s \<Longrightarrow> b \<in> set s"
  by (auto simp: prefix_def)

lemma digits_zero_x: "\<not> prefix ''0x'' (digits n)" "\<not> prefix ''0X'' (digits n)"
  using digits_no_x[of n] prefix_snd_mem[of "CHR ''0''" _ "digits n"] by blast+

lemma parseInt_plain:
  assumes "s \<noteq> []" "\<not> isSpace (hd s)" "hd s \<noteq> CHR ''-''" "hd s \<noteq> CHR ''+''"
    and "\<not> prefix ''0x'' s" "\<not> prefix ''0X'' s"
  shows "parseInt s = map_option int (readDigits 10 s)"
proof -
  have "dropWhile isSpace s = s"
    using assms(1,2) by (cases s) auto
  then show ?thesis
    unfolding parseInt_def Let_def using assms by (simp cong: if_cong)
qed

lemma parseInt_minus:
  assumes "\<not> prefix ''0x'' s" "\<not> prefix ''0X'' s"
  shows "parseInt (CHR ''-'' # s) = map_option (\<lambda>n. - int n) (readDigits 10 s)"
proof -
  have "dropWhile isSpace (CHR ''-'' # s) = CHR ''-'' # s"
    by (simp add: isSpace_def)
  then show ?thesis
    unfolding parseInt_def Let_def using assms by (simp cong: if_cong)
qed

lemma parseInt_digits: "parseInt (digits n) = Some (int n)"
proof -
  obtain d ds where d: "d < 10" "digits n = digitChar d # ds"
    using digits_hd by blast
  have "parseInt (digits n) = map_option int (readDigits 10 (digits n))"
  proof (rule parseInt_plain)
    show "digits n \<noteq> []" by (rule digits_not_Nil)
    show "\<not> isSpace (hd (digits n))" "hd (digits n) \<noteq> CHR ''-''" "hd (digits n) \<noteq> CHR ''+''"
      using d digitChar_neq[OF d(1)] by simp_all
    show "\<not> prefix ''0x'' (digits n)" "\<not> prefix ''0X'' (digits n)"
      by (rule digits_zero_x)+
  qed
  then show ?thesis by (simp only: readDigits_digits option.map)
qed

lemma parseInt_numToString: "parseInt (numToString i) = Some i"
proof (cases "i < 0")
  case True
  have "parseInt (CHR ''-'' # digits (nat (- i))) =
          map_option (\<lambda>n. - int n) (readDigits 10 (digits (nat (- i))))"
    by (rule parseInt_minus) (rule digits_zero_x)+
  then have "parseInt (CHR ''-'' # digits (nat (- i))) = Some (- int (nat (- i)))"
    by (simp only: readDigits_digits option.map)
  with True show ?thesis by (simp add: numToString_def)
next
  case False
  then show ?thesis by (simp add: numToString_def parseInt_digits)
qed

lemma parseInt_undefined: "parseInt ''undefined'' = None"
  by (simp add: parseInt_def Let_def isSpace_def readDigits_def digitValue_def)

lemma numToString_not_Nil: "numToString i \<noteq> []"
  by (simp add: numToString_def digits_not_Nil)

lemma parseIntOf_optToString: "parseIntOf (Some (optToString w)) = w"
  by (cases w) (simp_all add: parseIntOf_def optToString_def parseInt_undefined parseInt_numToString)

lemma digits_small: "n < 10 \<Longrightarrow> digits n = [digitChar n]"
  by (subst digits.simps) simp

lemma digits_step: "10 \<le> n \<Longrightarrow> digits n = digits (n div 10) @ [digitChar (n mod 10)]"
  by (subst digits.simps) simp

lemma digitChar_values:
  "digitChar 0 = CHR ''0''" "digitChar 1 = CHR ''1''" "digitChar 2 = CHR ''2''"
  "digitChar 3 = CHR ''3''" "digitChar 4 = CHR ''4''" "digitChar 5 = CHR ''5''"
  "digitChar 6 = CHR ''6''" "digitChar 7 = CHR ''7''" "digitChar 8 = CHR ''8''"
  "digitChar 9 = CHR ''9''" "digitChar (Suc 0) = CHR ''1''"
  by code_simp+

lemma numToString_chars:
  assumes "c \<in> set (numToString i)"
  shows "c = CHR ''-'' \<or> (\<exists>d<10. c = digitChar d)"
proof (cases "i < 0")
  case True
  with assms have "c = CHR ''-'' \<or> c \<in> set (digits (nat (- i)))"
    by (simp add: numToString_def)
  then show ?thesis using digits_set by blast
next
  case False
  with assms have "c \<in> set (digits (nat i))" by (simp add: numToString_def)
  then show ?thesis using digits_set by blast
qed

section \<open>The size formatter in integers\<close>

lemma floorLog1024_small: "n < 1024 \<Longrightarrow> floorLog1024 n = 0"
  by (subst floorLog1024.simps) simp

lemma floorLog1024_step: "1024 \<le> n \<Longrightarrow> floorLog1024 n = Suc (floorLog1024 (n div 1024))"
  by (subst floorLog1024.simps) simp

lemma toFixed1_frac:
  assumes "0 < b"
  shows "toFixed1 (of_int a / of_int b) = (20 * a + b) div (2 * b)"
proof -
  have "(of_int a / of_int b) * 10 + 1 / 2 = (of_int (20 * a + b) :: rat) / of_int (2 * b)"
    using assms by (simp add: field_simps)
  then show ?thesis
    unfolding toFixed1_def by (simp only: floor_divide_of_int_eq)
qed

lemma scaled_kb:
  fixes bytes :: int and k :: nat
  shows "(of_int bytes / (1024 :: rat)) / (1024 powi (int k - 1)) = of_int bytes / of_int (1024 ^ k)"
proof (cases k)
  case 0
  then show ?thesis by (simp add: power_int_minus)
next
  case (Suc j)
  then show ?thesis by (simp add: power_int_def)
qed

lemma formatSize_int:
  assumes "0 < bytes"
  shows "formatSize bytes =
     (let k = floorLog1024 (nat bytes)
      in printTenths ((20 * bytes + 1024 ^ k) div (2 * 1024 ^ k)) @
         (if 1 \<le> k then case at_index sizes (k - 1) of None \<Rightarrow> ''undefined'' | Some u \<Rightarrow> u
          else ''undefined''))"
proof -
  define k where "k = floorLog1024 (nat bytes)"
  have "toFixed1 ((of_int bytes / (1024 :: rat)) / (1024 powi (int k - 1))) =
          (20 * bytes + 1024 ^ k) div (2 * 1024 ^ k)"
    unfolding scaled_kb by (rule toFixed1_frac) simp
  moreover have "(0 \<le> int k - 1) = (1 \<le> k)" "nat (int k - 1) = k - 1" by auto
  ultimately show ?thesis
    using assms unfolding formatSize_def Let_def k_def[symmetric] by simp
qed

lemmas formatSize_eval =
  formatSize_int Let_def floorLog1024_small floorLog1024_step printTenths_def
  numToString_def digits_small digits_step digitChar_values sizes_def at_index_def

lemma floorLog1024_bounds:
  "0 < n \<Longrightarrow> 1024 ^ floorLog1024 n \<le> n \<and> n < 1024 ^ Suc (floorLog1024 n)"
proof (induction n rule: floorLog1024.induct)
  case (1 n)
  show ?case
  proof (cases "n < 1024")
    case True
    with "1.prems" show ?thesis by (simp add: floorLog1024_small)
  next
    case False
    then have pos: "0 < n div 1024" by (simp add: div_greater_zero_iff)
    from "1.IH"[OF False pos]
    have lo: "1024 ^ floorLog1024 (n div 1024) \<le> n div 1024"
      and hi: "n div 1024 < 1024 ^ Suc (floorLog1024 (n div 1024))" by simp_all
    have "1024 * 1024 ^ floorLog1024 (n div 1024) \<le> 1024 * (n div 1024)"
      using lo by simp
    also have "\<dots> \<le> n" by simp
    finally have a: "1024 ^ Suc (floorLog1024 (n div 1024)) \<le> n" by simp
    have "n div 1024 + 1 \<le> 1024 ^ Suc (floorLog1024 (n div 1024))" using hi by simp
    then have "1024 * (n div 1024 + 1) \<le> 1024 * 1024 ^ Suc (floorLog1024 (n div 1024))"
      by (rule mult_le_mono2)
    moreover have "n < 1024 * (n div 1024 + 1)"
      using dividend_less_times_div[of 1024 n] by simp
    ultimately have b: "n < 1024 ^ Suc (Suc (floorLog1024 (n div 1024)))" by simp
    show ?thesis using a b False by (simp add: floorLog1024_step)
  qed
qed

lemma floorLog1024_log:
  assumes "0 < n"
  shows "\<lfloor>log 1024 (real n)\<rfloor> = int (floorLog1024 n)"
proof -
  have "\<lfloor>log (real (1024 :: nat)) (real n)\<rfloor> = int (floorLog1024 n)"
    using floorLog1024_bounds[OF assms] by (intro floor_log_nat_eq_if) simp_all
  then show ?thesis by simp
qed

lemma index_is_floor_log:
  assumes "0 < bytes"
  shows "\<lfloor>log 1024 (real_of_int bytes / 1024)\<rfloor> = int (floorLog1024 (nat bytes)) - 1"
proof -
  have "log 1024 (real_of_int bytes / 1024) = log 1024 (real_of_int bytes) - log 1024 1024"
    using assms by (simp add: log_divide)
  also have "\<dots> = log 1024 (real (nat bytes)) - 1" using assms by simp
  finally have "\<lfloor>log 1024 (real_of_int bytes / 1024)\<rfloor> = \<lfloor>log 1024 (real (nat bytes))\<rfloor> - 1"
    by simp
  then show ?thesis using floorLog1024_log[of "nat bytes"] assms by simp
qed

lemma printTenths_whole: "printTenths (10 * q) = numToString q"
  by (simp add: printTenths_def)

lemma printTenths_decimal:
  "0 < r \<Longrightarrow> r < 10 \<Longrightarrow> printTenths (10 * q + r) = numToString q @ ''.'' @ numToString r"
  by (simp add: printTenths_def)

section \<open>The matcher\<close>

lemma Lit_mem: "(t, c') \<in> set (matches (Lit l) (s, c)) \<longleftrightarrow> s = l @ t \<and> c' = c"
  by (auto simp: prefix_def)

lemma Seq_mem:
  "x \<in> set (matches (Seq a b) st) \<longleftrightarrow> (\<exists>st' \<in> set (matches a st). x \<in> set (matches b st'))"
  by auto

lemma Alt_mem:
  "x \<in> set (matches (Alt a b) st) \<longleftrightarrow> x \<in> set (matches a st) \<or> x \<in> set (matches b st)"
  by auto

lemma Opt_mem:
  "x \<in> set (matches (Opt a) (s, c)) \<longleftrightarrow>
     (x \<in> set (matches a (s, c)) \<and> length (fst x) < length s) \<or> x = (s, c)"
  by (auto split: if_splits)

lemma finlangD:
  "finlang r ws \<Longrightarrow> (t, c') \<in> set (matches r (s, c)) \<Longrightarrow> \<exists>w \<in> set ws. s = w @ t \<and> c' = c"
  unfolding finlang_def by blast

lemma finlangI:
  "finlang r ws \<Longrightarrow> w \<in> set ws \<Longrightarrow> (t, c) \<in> set (matches r (w @ t, c))"
  unfolding finlang_def by blast

lemma finlang_Lit: "finlang (Lit l) [l]"
  by (auto simp: finlang_def prefix_def)

lemma finlang_Seq:
  assumes a: "finlang a A" and b: "finlang b B"
  shows "finlang (Seq a b) (concat (map (\<lambda>u. map (\<lambda>v. u @ v) B) A))"
  unfolding finlang_def
proof (intro allI iffI)
  fix s c t c'
  assume "(t, c') \<in> set (matches (Seq a b) (s, c))"
  then obtain m d where m: "(m, d) \<in> set (matches a (s, c))"
    and t: "(t, c') \<in> set (matches b (m, d))"
    unfolding Seq_mem by (metis surj_pair)
  from finlangD[OF a m] obtain u where u: "u \<in> set A" "s = u @ m" "d = c" by blast
  from finlangD[OF b t] obtain v where v: "v \<in> set B" "m = v @ t" "c' = d" by blast
  have "u @ v \<in> set (concat (map (\<lambda>u. map (\<lambda>v. u @ v) B) A))"
    using u(1) v(1) by auto
  then show "(\<exists>w \<in> set (concat (map (\<lambda>u. map (\<lambda>v. u @ v) B) A)). s = w @ t) \<and> c' = c"
    using u v by (metis append.assoc)
next
  fix s t :: string and c c' :: "string option"
  assume "(\<exists>w \<in> set (concat (map (\<lambda>u. map (\<lambda>v. u @ v) B) A)). s = w @ t) \<and> c' = c"
  then obtain u v where uv: "u \<in> set A" "v \<in> set B" "s = (u @ v) @ t" "c' = c"
    by auto
  have "(v @ t, c) \<in> set (matches a (u @ v @ t, c))" by (rule finlangI[OF a uv(1)])
  moreover have "(t, c) \<in> set (matches b (v @ t, c))" by (rule finlangI[OF b uv(2)])
  ultimately show "(t, c') \<in> set (matches (Seq a b) (s, c))"
    unfolding Seq_mem using uv(3,4) by (metis append.assoc)
qed

lemma finlang_Alt:
  assumes "finlang a A" "finlang b B"
  shows "finlang (Alt a b) (A @ B)"
  using assms unfolding finlang_def by (simp add: Alt_mem) blast

lemma finlang_Opt:
  assumes "finlang a A" "[] \<notin> set A"
  shows "finlang (Opt a) (A @ [[]])"
  unfolding finlang_def
proof (intro allI)
  fix s c t c'
  have "(t, c') \<in> set (matches a (s, c)) \<Longrightarrow> length t < length s"
    using assms unfolding finlang_def by (metis append_eq_append_conv length_append
        less_add_same_cancel2 length_greater_0_conv add.commute)
  then have "(t, c') \<in> set (matches (Opt a) (s, c)) \<longleftrightarrow>
          (t, c') \<in> set (matches a (s, c)) \<or> (t, c') = (s, c)"
    by (auto simp: Opt_mem)
  also have "\<dots> \<longleftrightarrow> (\<exists>w \<in> set (A @ [[]]). s = w @ t) \<and> c' = c"
    using assms(1) unfolding finlang_def by auto
  finally show "(t, c') \<in> set (matches (Opt a) (s, c)) \<longleftrightarrow>
          (\<exists>w \<in> set (A @ [[]]). s = w @ t) \<and> c' = c" .
qed

lemma finlang_set: "finlang r A \<Longrightarrow> set A = set B \<Longrightarrow> finlang r B"
  by (simp add: finlang_def)

lemma Rep_Cls:
  "matches (Rep n (Cls P)) (s, c) =
     (if n \<le> length s \<and> (\<forall>x \<in> set (take n s). P x) then [(drop n s, c)] else [])"
proof (induction n arbitrary: s)
  case 0
  show ?case by simp
next
  case (Suc n)
  show ?case
  proof (cases s)
    case Nil
    then show ?thesis by simp
  next
    case (Cons x xs)
    then show ?thesis using Suc.IH[of xs] by simp
  qed
qed

lemma Star_Cls: "\<exists>rest. matches (Star (Cls P)) (s, c) = (dropWhile P s, c) # rest"
proof (induction s)
  case Nil
  show ?case by simp
next
  case (Cons x xs)
  then obtain rest where "matches (Star (Cls P)) (xs, c) = (dropWhile P xs, c) # rest"
    by blast
  then show ?case by simp
qed

lemma take_all_but: "s = a @ b \<Longrightarrow> take (length s - length b) s = a"
  by simp

lemma concat_map_same:
  assumes "xs \<noteq> []" and "\<forall>x \<in> set xs. x = a"
  shows "concat (map f xs) = f a @ concat (map f (tl xs))"
  using assms by (cases xs) auto

lemma concat_map_all_Nil: "\<forall>x \<in> set xs. f x = [] \<Longrightarrow> concat (map f xs) = []"
  by (induction xs) auto

lemma LazyStar_Cls:
  "matches (LazyStar (Cls P)) (s, c) =
     map (\<lambda>k. (drop k s, c)) [0..<Suc (length (takeWhile P s))]"
proof (induction s)
  case Nil
  show ?case by simp
next
  case (Cons x xs)
  show ?case
  proof (cases "P x")
    case False
    then show ?thesis by simp
  next
    case True
    have "map (\<lambda>k. (drop k (x # xs), c)) [0..<Suc (Suc (length (takeWhile P xs)))] =
            (x # xs, c) # map (\<lambda>k. (drop k xs, c)) [0..<Suc (length (takeWhile P xs))]"
      by (subst map_upt_Suc) simp
    then show ?thesis using True Cons.IH by simp
  qed
qed

lemma concat_map_first:
  assumes "k0 \<le> n" and "\<And>k. k < k0 \<Longrightarrow> f k = []"
  shows "concat (map f [0..<Suc n]) = f k0 @ concat (map f [Suc k0..<Suc n])"
proof -
  have "[0..<k0 + (Suc n - k0)] = [0..<k0] @ [k0..<k0 + (Suc n - k0)]"
    by (rule upt_add_eq_append) simp
  moreover have "[k0..<Suc n] = k0 # [Suc k0..<Suc n]"
    using assms(1) by (simp add: upt_conv_Cons)
  ultimately have "[0..<Suc n] = [0..<k0] @ k0 # [Suc k0..<Suc n]"
    using assms(1) by simp
  moreover have "concat (map f [0..<k0]) = []"
    by (rule concat_map_all_Nil) (simp add: assms(2))
  ultimately show ?thesis by simp
qed

lemma Seq_LazyStar_Cls:
  "matches (Seq (LazyStar (Cls P)) X) (s, c) =
     concat (map (\<lambda>k. matches X (drop k s, c)) [0..<Suc (length (takeWhile P s))])"
  by (simp only: matches.simps(3) LazyStar_Cls map_map comp_def)

lemma Seq_Grp_LazyStar_Cls:
  "matches (Seq (Grp (LazyStar (Cls P))) X) (s, c) =
     concat (map (\<lambda>k. matches X (drop k s, Some (take k s)))
       [0..<Suc (length (takeWhile P s))])"
proof -
  have "length (takeWhile P s) \<le> length s" by (rule length_takeWhile_le)
  then have "map (\<lambda>x. matches X (case x of (s', _) \<Rightarrow> (s', Some (take (length s - length s') s))))
               (map (\<lambda>k. (drop k s, c)) [0..<Suc (length (takeWhile P s))]) =
             map (\<lambda>k. matches X (drop k s, Some (take k s))) [0..<Suc (length (takeWhile P s))]"
    by (auto simp: min_def)
  then show ?thesis
    by (simp only: matches.simps(3) matches.simps(10) LazyStar_Cls map_map comp_def)
qed

lemma Seq_Lit_hit: "matches (Seq (Lit l) r) (l @ s, c) = matches r (s, c)"
  by simp

lemma Seq_Lit_miss: "\<not> prefix l s \<Longrightarrow> matches (Seq (Lit l) r) (s, c) = []"
  by simp

lemma Seq_first:
  assumes "matches a st = x # xs" "matches b x = y # ys"
  shows "\<exists>zs. matches (Seq a b) st = y # zs"
  using assms by simp

lemma Grp_Star_Cls:
  "\<exists>rest. matches (Grp (Star (Cls P))) (s, c) = (dropWhile P s, Some (takeWhile P s)) # rest"
proof -
  obtain rest where "matches (Star (Cls P)) (s, c) = (dropWhile P s, c) # rest"
    using Star_Cls by blast
  moreover have "take (length s - length (dropWhile P s)) s = takeWhile P s"
    by (rule take_all_but) simp
  ultimately show ?thesis by simp
qed

lemma exec_at_first:
  "matches r (m @ rest, None) = (rest, cap) # others \<Longrightarrow> exec_at r (m @ rest) = Some (m, cap)"
  by (simp add: exec_at_def)

lemma exec_at_whole:
  "matches r (s, None) = ([], cap) # others \<Longrightarrow> exec_at r s = Some (s, cap)"
  by (simp add: exec_at_def)

lemma exec_at_miss: "\<not> prefix l s \<Longrightarrow> exec_at (Seq (Lit l) r) s = None"
  by (simp add: exec_at_def)

lemma search_hit: "exec_at r s = Some m \<Longrightarrow> search r s = Some m"
  by (cases s) simp_all

lemma search_skip:
  "\<forall>k < length pre. exec_at r (drop k (pre @ s)) = None \<Longrightarrow> search r (pre @ s) = search r s"
proof (induction pre)
  case Nil
  show ?case by simp
next
  case (Cons x xs)
  from Cons.prems have "exec_at r ((x # xs) @ s) = None" by fastforce
  moreover have "\<forall>k < length xs. exec_at r (drop k (xs @ s)) = None"
  proof (intro allI impI)
    fix k assume "k < length xs"
    then have "exec_at r (drop (Suc k) ((x # xs) @ s)) = None"
      using Cons.prems by (metis Suc_less_eq length_Cons)
    then show "exec_at r (drop k (xs @ s)) = None" by simp
  qed
  ultimately show ?case using Cons.IH by simp
qed

lemma search_none:
  "\<forall>k \<le> length s. exec_at r (drop k s) = None \<Longrightarrow> search r s = None"
proof (induction s)
  case Nil
  then show ?case by simp
next
  case (Cons x xs)
  from Cons.prems have "exec_at r (x # xs) = None" by fastforce
  moreover have "\<forall>k \<le> length xs. exec_at r (drop k xs) = None"
  proof (intro allI impI)
    fix k assume "k \<le> length xs"
    then have "exec_at r (drop (Suc k) (x # xs)) = None"
      using Cons.prems by (metis Suc_le_mono length_Cons)
    then show "exec_at r (drop k xs) = None" by simp
  qed
  ultimately show ?case using Cons.IH by simp
qed

section \<open>The pattern of the extractor\<close>

lemma finlang_youtubeHost: "finlang youtubeHost url_prefixes"
proof -
  have sub: "finlang (Opt (Seq (Alt (Lit ''www'') (Lit ''music'')) (Lit ''.'')))
               [''www.'', ''music.'', []]"
    by (rule finlang_set[OF finlang_Opt[OF finlang_Seq[OF finlang_Alt[OF finlang_Lit finlang_Lit]
          finlang_Lit]]]) simp_all
  have site: "finlang (Alt (Seq (Lit ''youtube.com/'') (Alt (Lit ''watch?v='') (Lit ''shorts/'')))
                 (Lit ''youtu.be/''))
               [''youtube.com/watch?v='', ''youtube.com/shorts/'', ''youtu.be/'']"
    by (rule finlang_set[OF finlang_Alt[OF finlang_Seq[OF finlang_Lit
          finlang_Alt[OF finlang_Lit finlang_Lit]] finlang_Lit]]) simp_all
  have scheme: "finlang (Opt (Lit ''s'')) [''s'', []]"
    by (rule finlang_set[OF finlang_Opt[OF finlang_Lit]]) simp_all
  show ?thesis
    unfolding youtubeHost_def
    by (rule finlang_set[OF finlang_Seq[OF finlang_Lit finlang_Seq[OF scheme
          finlang_Seq[OF finlang_Lit finlang_Seq[OF sub site]]]]])
       (simp add: url_prefixes_def insert_commute)
qed

lemma url_prefixes_no_space: "\<forall>p \<in> set url_prefixes. \<forall>c \<in> set p. \<not> isSpace c"
  by code_simp

lemma url_prefixes_prefix_free:
  "\<forall>p \<in> set url_prefixes. \<forall>q \<in> set url_prefixes. prefix p q \<longrightarrow> p = q"
  by code_simp

lemma isIdChar_not_space: "isIdChar c \<Longrightarrow> \<not> isSpace c"
  by (auto simp: isIdChar_def isWord_def isSpace_def Let_def)

lemma url_prefix_unique:
  assumes "p \<in> set url_prefixes" "q \<in> set url_prefixes" "prefix p s" "prefix q s"
  shows "p = q"
proof -
  from assms(3,4) have "prefix p q \<or> prefix q p"
    by (rule prefix_same_cases)
  then show ?thesis using url_prefixes_prefix_free assms(1,2) by blast
qed

lemma youtubeRegex_alt:
  "youtubeRegex = Grp (Seq youtubeHost (Seq (Rep 11 (Cls isIdChar)) (Star (Cls nonSpace))))"
proof -
  have "isIdChar = (\<lambda>c. isWord c \<or> c = CHR ''-'')" "nonSpace = (\<lambda>c. \<not> isSpace c)"
    by (auto simp: isIdChar_def nonSpace_def)
  then show ?thesis by (simp add: youtubeRegex_def)
qed

lemma tail_matches:
  "matches (Seq (Rep 11 (Cls isIdChar)) (Star (Cls nonSpace))) (t, c) =
     (if 11 \<le> length t \<and> (\<forall>x \<in> set (take 11 t). isIdChar x)
      then matches (Star (Cls nonSpace)) (drop 11 t, c) else [])"
  by (simp only: matches.simps(3) Rep_Cls) simp

lemma exec_at_youtubeRegex:
  "exec_at youtubeRegex s =
     (if is_url_start s then Some (takeWhile nonSpace s, Some (takeWhile nonSpace s)) else None)"
proof -
  define tail where "tail = Seq (Rep 11 (Cls isIdChar)) (Star (Cls nonSpace))"
  define M where "M = matches youtubeHost (s, None)"
  have whole: "matches youtubeRegex (s, None) =
      map (\<lambda>(s', _). (s', Some (take (length s - length s') s))) (concat (map (matches tail) M))"
    by (simp add: youtubeRegex_alt tail_def M_def)
  show ?thesis
  proof (cases "\<exists>p \<in> set url_prefixes. prefix p s")
    case False
    have "M = []"
    proof (rule ccontr)
      assume "M \<noteq> []"
      then obtain t c' where "(t, c') \<in> set M" by (cases M) auto
      then have "\<exists>w \<in> set url_prefixes. s = w @ t \<and> c' = None"
        unfolding M_def by (rule finlangD[OF finlang_youtubeHost])
      then show False
        using False by (metis prefixI)
    qed
    then have "matches youtubeRegex (s, None) = []"
      unfolding whole by simp
    then have "exec_at youtubeRegex s = None" by (simp add: exec_at_def)
    moreover have "\<not> is_url_start s" using False by (auto simp: is_url_start_def)
    ultimately show ?thesis by simp
  next
    case True
    then obtain p t where p: "p \<in> set url_prefixes" and s: "s = p @ t"
      by (auto simp: prefix_def)
    have mem: "(t, None) \<in> set M"
      unfolding M_def s by (rule finlangI[OF finlang_youtubeHost p])
    have all: "\<forall>x \<in> set M. x = (t, None)"
    proof
      fix x assume "x \<in> set M"
      moreover obtain t' c' where x: "x = (t', c')" by (cases x)
      ultimately have "(t', c') \<in> set (matches youtubeHost (s, None))"
        unfolding M_def by simp
      then have "\<exists>w \<in> set url_prefixes. s = w @ t' \<and> c' = None"
        by (rule finlangD[OF finlang_youtubeHost])
      then obtain q where q: "q \<in> set url_prefixes" "s = q @ t'" "c' = None"
        by (elim bexE conjE)
      have "p = q" using url_prefix_unique[OF p q(1)] s q(2) by (metis prefixI)
      then show "x = (t, None)" using x q s by simp
    qed
    have ne: "M \<noteq> []" using mem by auto
    let ?cond = "11 \<le> length t \<and> (\<forall>x \<in> set (take 11 t). isIdChar x)"
    have start: "is_url_start s \<longleftrightarrow> ?cond"
    proof
      assume "is_url_start s"
      then obtain q where q: "q \<in> set url_prefixes" "prefix q s" "11 \<le> length s - length q"
        "\<forall>c \<in> set (take 11 (drop (length q) s)). isIdChar c"
        by (auto simp: is_url_start_def)
      have "p = q" using url_prefix_unique[OF p q(1)] s q(2) by (metis prefixI)
      then show ?cond using q(3,4) s by simp
    next
      assume ?cond
      then have "prefix p s \<and> 11 \<le> length s - length p \<and>
          (\<forall>c \<in> set (take 11 (drop (length p) s)). isIdChar c)"
        by (simp add: s)
      then show "is_url_start s" unfolding is_url_start_def using p by blast
    qed
    show ?thesis
    proof (cases ?cond)
      case False
      have "matches tail (t, None) = []"
        unfolding tail_def tail_matches using False by simp
      then have "\<forall>x \<in> set M. matches tail x = []"
        using all by metis
      then have "concat (map (matches tail) M) = []" by (rule concat_map_all_Nil)
      then have "matches youtubeRegex (s, None) = []"
        unfolding whole by (simp only: list.map)
      then have "exec_at youtubeRegex s = None" by (simp add: exec_at_def)
      then show ?thesis using False start by simp
    next
      case True
      obtain rest where star: "matches (Star (Cls nonSpace)) (drop 11 t, None) =
          (dropWhile nonSpace (drop 11 t), None) # rest"
        using Star_Cls by blast
      have "concat (map (matches tail) M) =
              matches tail (t, None) @ concat (map (matches tail) (tl M))"
        by (rule concat_map_same[OF ne all])
      also have "matches tail (t, None) = (dropWhile nonSpace (drop 11 t), None) # rest"
        unfolding tail_def tail_matches using True star by simp
      finally obtain rest' where first: "concat (map (matches tail) M) =
          (dropWhile nonSpace (drop 11 t), None) # rest'"
        by simp
      let ?r = "dropWhile nonSpace (drop 11 t)"
      have "matches youtubeRegex (s, None) =
          (?r, Some (take (length s - length ?r) s)) #
          map (\<lambda>(s', _). (s', Some (take (length s - length s') s))) rest'"
        unfolding whole first by simp
      then have ex: "exec_at youtubeRegex s =
          Some (take (length s - length ?r) s, Some (take (length s - length ?r) s))"
        by (simp add: exec_at_def)
      have pns: "\<forall>c \<in> set p. nonSpace c"
        using url_prefixes_no_space p by (simp add: nonSpace_def)
      have ins: "\<forall>c \<in> set (take 11 t). nonSpace c"
        using True isIdChar_not_space by (auto simp: nonSpace_def)
      have split_s: "s = (p @ take 11 t) @ drop 11 t" by (simp add: s)
      have "takeWhile nonSpace s = (p @ take 11 t) @ takeWhile nonSpace (drop 11 t)"
        by (subst split_s, rule takeWhile_append2) (use pns ins in auto)
      moreover have "take (length s - length ?r) s = (p @ take 11 t) @ takeWhile nonSpace (drop 11 t)"
      proof -
        have "s = ((p @ take 11 t) @ takeWhile nonSpace (drop 11 t)) @ ?r"
          by (simp add: s)
        then show ?thesis by (rule take_all_but)
      qed
      ultimately show ?thesis using ex start True by simp
    qed
  qed
qed

lemma is_url_start_Nil: "\<not> is_url_start []"
  by (simp add: is_url_start_def)

lemma all_less_upt: "\<forall>k \<in> set [0..<n]. P k \<Longrightarrow> \<forall>k < n. P k"
  by simp

section \<open>The patterns of the description\<close>

lemma exec_at_titleRegex:
  assumes D: "\<forall>c \<in> set D. dot c \<and> c \<noteq> CHR '']''"
    and W: "\<forall>c \<in> set W. isSpace c"
    and T: "T = [] \<or> \<not> isSpace (hd T)" "\<forall>c \<in> set T. dot c"
  shows "exec_at titleRegex (''<b>['' @ D @ '']</b>'' @ W @ T) =
           Some (''<b>['' @ D @ '']</b>'' @ W @ T, Some T)"
proof -
  define R3 where "R3 = Seq (Star (Cls isSpace)) (Grp (Star (Cls dot)))"
  define X where "X = Seq (Lit '']</b>'') R3"
  let ?s = "D @ '']</b>'' @ W @ T"
  have dw: "dropWhile isSpace (W @ T) = T"
    using W T(1) by (cases T) (simp_all add: dropWhile_append2)
  obtain r1 where r1: "matches (Star (Cls isSpace)) (W @ T, None) = (T, None) # r1"
    using Star_Cls[of isSpace "W @ T" None] dw by auto
  have "takeWhile dot T = T" "dropWhile dot T = []" using T(2) by simp_all
  then obtain r2 where r2: "matches (Grp (Star (Cls dot))) (T, None) = ([], Some T) # r2"
    using Grp_Star_Cls[of dot T None] by auto
  obtain r3 where r3: "matches R3 (W @ T, None) = ([], Some T) # r3"
    unfolding R3_def using Seq_first[OF r1 r2] by blast
  have hit: "matches X (drop (length D) ?s, None) = ([], Some T) # r3"
    unfolding X_def using r3 Seq_Lit_hit[of "'']</b>''" R3 "W @ T" None] by simp
  have miss: "matches X (drop k ?s, None) = []" if "k < length D" for k
  proof -
    have "drop k ?s = D ! k # drop (Suc k) ?s"
      using that by (simp add: Cons_nth_drop_Suc nth_append)
    moreover have "D ! k \<noteq> CHR '']''" using D that by simp
    ultimately show ?thesis unfolding X_def by simp
  qed
  have "takeWhile dot ?s = D @ takeWhile dot ('']</b>'' @ W @ T)"
    using D by (intro takeWhile_append2) simp
  then have len: "length D \<le> length (takeWhile dot ?s)" by simp
  have "matches (Seq (LazyStar (Cls dot)) X) (?s, None) =
          matches X (drop (length D) ?s, None) @
          concat (map (\<lambda>k. matches X (drop k ?s, None))
            [Suc (length D)..<Suc (length (takeWhile dot ?s))])"
    unfolding Seq_LazyStar_Cls by (rule concat_map_first[OF len]) (rule miss)
  then obtain r4 where "matches (Seq (LazyStar (Cls dot)) X) (?s, None) = ([], Some T) # r4"
    using hit by simp
  then have "matches titleRegex (''<b>['' @ ?s, None) = ([], Some T) # r4"
    unfolding titleRegex_def X_def R3_def by (simp only: Seq_Lit_hit)
  from exec_at_whole[OF this] show ?thesis .
qed

lemma exec_at_authorRegex:
  assumes U: "\<forall>c \<in> set U. dot c \<and> c \<noteq> CHR ''<''"
  shows "exec_at authorRegex (''By <b>'' @ U @ ''</b>'' @ rest) =
           Some (''By <b>'' @ U @ ''</b>'', Some U)"
proof -
  let ?X = "Lit ''</b>''"
  let ?s = "U @ ''</b>'' @ rest"
  have hit: "matches ?X (drop (length U) ?s, Some (take (length U) ?s)) = [(rest, Some U)]"
    by simp
  have miss: "matches ?X (drop k ?s, Some (take k ?s)) = []" if "k < length U" for k
  proof -
    have "drop k ?s = U ! k # drop (Suc k) ?s"
      using that by (simp add: Cons_nth_drop_Suc nth_append)
    moreover have "U ! k \<noteq> CHR ''<''" using U that by simp
    ultimately show ?thesis by simp
  qed
  have "takeWhile dot ?s = U @ takeWhile dot (''</b>'' @ rest)"
    using U by (intro takeWhile_append2) simp
  then have len: "length U \<le> length (takeWhile dot ?s)" by simp
  have "matches (Seq (Grp (LazyStar (Cls dot))) ?X) (?s, None) =
          matches ?X (drop (length U) ?s, Some (take (length U) ?s)) @
          concat (map (\<lambda>k. matches ?X (drop k ?s, Some (take k ?s)))
            [Suc (length U)..<Suc (length (takeWhile dot ?s))])"
    unfolding Seq_Grp_LazyStar_Cls by (rule concat_map_first[OF len]) (rule miss)
  then obtain r where "matches (Seq (Grp (LazyStar (Cls dot))) ?X) (?s, None) = (rest, Some U) # r"
    using hit by simp
  then have "matches authorRegex (''By <b>'' @ ?s, None) = (rest, Some U) # r"
    unfolding authorRegex_def by (simp only: Seq_Lit_hit)
  then have "matches authorRegex ((''By <b>'' @ U @ ''</b>'') @ rest, None) = (rest, Some U) # r"
    by simp
  from exec_at_first[OF this] show ?thesis by simp
qed

lemma digitChar_plain: "d < 10 \<Longrightarrow> dot (digitChar d) \<and> digitChar d \<noteq> CHR '']''"
proof -
  assume "d < 10"
  then have "(of_char (digitChar d) :: nat) = 48 + d" by (rule of_char_digitChar)
  moreover have "(of_char c :: nat) \<in> {10, 13, 93}" if "\<not> dot c \<or> c = CHR '']''" for c
    using that by (auto simp: dot_def isLineTerminator_def)
  ultimately show ?thesis using \<open>d < 10\<close> by fastforce
qed

lemma numToString_plain:
  assumes "c \<in> set (numToString i)"
  shows "dot c \<and> c \<noteq> CHR '']''"
proof -
  from numToString_chars[OF assms] show ?thesis
  proof
    assume "c = CHR ''-''"
    then show ?thesis by (simp add: dot_def isLineTerminator_def)
  next
    assume "\<exists>d<10. c = digitChar d"
    then obtain d where "d < 10" "c = digitChar d" by (elim exE conjE)
    then show ?thesis using digitChar_plain[of d] by simp
  qed
qed

lemma literal_plain:
  "c \<in> set ''h '' \<or> c \<in> set ''m '' \<or> c \<in> set ''s'' \<Longrightarrow> dot c \<and> c \<noteq> CHR '']''"
  by (auto simp: dot_def isLineTerminator_def)

lemma getDurationString_plain:
  assumes "c \<in> set (getDurationString d)"
  shows "dot c \<and> c \<noteq> CHR '']''"
proof -
  define sec where "sec = numToString (js_rem d 60)"
  define mins where "mins = numToString (js_rem d 3600 div 60)"
  define hrs where "hrs = numToString (d div 3600)"
  have "getDurationString d = hrs @ ''h '' @ mins @ ''m '' @ sec @ ''s'' \<or>
        getDurationString d = mins @ ''m '' @ sec @ ''s''"
    by (simp add: getDurationString_def Let_def sec_def mins_def hrs_def)
  with assms have "c \<in> set hrs \<or> c \<in> set mins \<or> c \<in> set sec \<or>
      (c \<in> set ''h '' \<or> c \<in> set ''m '' \<or> c \<in> set ''s'')"
    by (elim disjE) (simp_all only: set_append Un_iff, argo+)
  then consider "c \<in> set hrs" | "c \<in> set mins" | "c \<in> set sec"
    | "c \<in> set ''h '' \<or> c \<in> set ''m '' \<or> c \<in> set ''s''"
    by argo
  then show ?thesis
  proof cases
    case 1 then show ?thesis unfolding hrs_def by (rule numToString_plain)
  next
    case 2 then show ?thesis unfolding mins_def by (rule numToString_plain)
  next
    case 3 then show ?thesis unfolding sec_def by (rule numToString_plain)
  next
    case 4 then show ?thesis by (rule literal_plain)
  qed
qed

lemma not_LF_of_dot: "dot c \<Longrightarrow> c \<noteq> CHR 0x0A"
  by (auto simp: dot_def isLineTerminator_def)

lemma split_lines_two:
  assumes "CHR 0x0A \<notin> set l0" "CHR 0x0A \<notin> set l1"
  shows "split (l0 @ newline @ l1) newline = [l0, l1]"
  using assms by (simp add: newline_def split_piece split_last)

lemma split_lines_more:
  assumes "CHR 0x0A \<notin> set l0" "CHR 0x0A \<notin> set l1"
  shows "\<exists>ls. split (l0 @ newline @ l1 @ newline @ rest) newline = l0 # l1 # ls"
  using assms by (simp add: newline_def split_piece)

lemma send_audio_lines:
  assumes "this_isAudio this" "fs (this_descrFilePath this) = Some text"
    and "split text newline = l0 # l1 # ls"
  shows "send this fs =
     Inr (AudioMessage (this_storedFilePath this)
            (or_else (group1 (exec_at titleRegex l0)) (this_video_id this))
            (or_else (map_option (\<lambda>a. replace a '' - Topic'' []) (group1 (exec_at authorRegex l1)))
               ''Unknown Artist'')
            (parseIntOf (this_duration this)) (this_thumbFilePath this))"
  using assms by (simp add: send_def Let_def at_index_def)

section \<open>The payload of a button\<close>

lemma tierData_split:
  assumes "CHR ''|'' \<notin> set vid" "CHR ''|'' \<notin> set fid"
  shows "split (tierData vid info m (fid, sz, h, w)) ''|'' =
           [vid, fid @ ''+ba'', numToString (duration info), numToString h, optToString w,
            numToString m]"
proof -
  have "tierData vid info m (fid, sz, h, w) =
          vid @ ''|'' @ (fid @ ''+ba'') @ ''|'' @ numToString (duration info) @ ''|'' @
          numToString h @ ''|'' @ optToString w @ ''|'' @ numToString m"
    by (simp add: tierData_def)
  moreover have "CHR ''|'' \<notin> set (fid @ ''+ba'')" using assms(2) by simp
  ultimately show ?thesis
    using assms(1) split6 numToString_no_bar optToString_no_bar by presburger
qed

lemma musicData_split:
  assumes "CHR ''|'' \<notin> set (info_id info)"
  shows "split (musicData info m) ''|'' =
           [info_id info, ''ba'', numToString (duration info), [], [], numToString m]"
proof -
  have "musicData info m =
          info_id info @ ''|'' @ ''ba'' @ ''|'' @ numToString (duration info) @ ''|'' @
          [] @ ''|'' @ [] @ ''|'' @ numToString m"
    by (simp add: musicData_def)
  moreover have "CHR ''|'' \<notin> set ''ba''" "CHR ''|'' \<notin> set []" by simp_all
  ultimately show ?thesis
    using assms split6 numToString_no_bar by presburger
qed

section \<open>The error text\<close>

lemma includes_str_sublist: "includes_str s needle \<longleftrightarrow> sublist needle s"
  by (induction s) (auto simp: sublist_Cons_right)

lemma fullErrorMessage_distinct: "fullErrorMessage badURL e \<noteq> fullErrorMessage atGettingInfo e'"
  by (simp add: fullErrorMessage_def errorMessages_def)

section \<open>The quality mapping in cases\<close>

lemma getQualityID_cases:
  "getQualityID h =
     (if h < 360 then ''240p'' else if h < 480 then ''360p'' else if h < 720 then ''480p''
      else if h < 1080 then ''720p'' else if h < 1440 then ''1080p''
      else if h < 2160 then ''1440p'' else ''4K'')"
  by (simp add: getQualityID_def QUALITY_LEVELS_def)

section \<open>The tier ladder\<close>

text \<open>
  C1. The claim: the ladder has one entry for each tier that is present, and of the
  candidates of a tier (entries with a video codec, a known file size and a known
  height) the one with the smallest file size is selected. The comment in the loop says
  the same (smaller files take precedence). The code sorts by rising file size and lets
  each entry overwrite its tier's slot, so the last and largest candidate stays: of two
  1080p candidates of 100 and 200 bytes the ladder keeps the one of 200 bytes.
\<close>

theorem ladder_keeps_largest_of_tier:
  "existingFormats (processVideoInfo ''https://youtu.be/dQw4w9WgXcQ''
     \<lparr> info_id = ''dQw4w9WgXcQ'', title = ''T'', uploader = ''U'', duration = 212,
        formats =
          [\<lparr> format_id = ''A'', vcodec = ''avc1'', acodec = ''none'', filesize = Some 100,
              height = Some 1080, width = Some 1920 \<rparr>,
           \<lparr> format_id = ''B'', vcodec = ''vp9'', acodec = ''none'', filesize = Some 200,
              height = Some 1080, width = Some 1920 \<rparr>] \<rparr>)
   = [(''1080p'', (''B'', 200, 1080, Some 1920))]"
  by code_simp

section \<open>The quality mapping\<close>

text \<open>
  C2. The quality mapping reads the height against the ascending thresholds 360, 480,
  720, 1080, 1440 and 2160: a height of 200 is tier 240p, a height of 480 is tier 480p,
  every height from 2160 on (2200 among them) is tier 4K, and no height at all is given
  the label 144p, although the label set declares it.
\<close>

theorem getQualityID_thresholds:
  "getQualityID 200 = ''240p'' \<and> getQualityID 480 = ''480p'' \<and> getQualityID 2200 = ''4K''
   \<and> (\<forall>h. 2160 \<le> h \<longrightarrow> getQualityID h = ''4K'')
   \<and> (\<forall>h. getQualityID h \<noteq> ''144p'') \<and> ''144p'' \<in> set allowedFormats
   \<and> (\<forall>h. getQualityID h =
         (if h < 360 then ''240p'' else if h < 480 then ''360p''
          else if h < 720 then ''480p'' else if h < 1080 then ''720p''
          else if h < 1440 then ''1080p'' else if h < 2160 then ''1440p'' else ''4K''))"
  by (simp add: getQualityID_cases allowedFormats_def)

theorem getQualityID_thresholds_witness:
  "(2160::int) \<le> 4320 \<and> getQualityID 4320 = ''4K'' \<and> getQualityID 2160 = ''4K''"
  using getQualityID_thresholds by simp

section \<open>Cleaning up\<close>

text \<open>
  C3. The claim: the deletion of each of the three files of a session (media, thumbnail,
  description) is attempted, whichever of them are on disk, and a deletion that fails does
  not keep the others from being attempted. The code makes the three calls in one
  \<^verbatim>\<open>try\<close> block: with the media file missing, as after a failed download, the first
  call throws, the other two are never made, and thumbnail and description stay on disk.
\<close>

theorem cleanup_stops_at_first_failure:
  "(let this = CallbackQueryHandler ''/app'' ''dQw4w9WgXcQ|ba|212|||77'';
        st = cleanUpFiles this
               [''/app/dQw4w9WgXcQ.m4a.jpg'' \<mapsto> ''thumbnail'',
                ''/app/dQw4w9WgXcQ-descr.txt'' \<mapsto> ''description'']
    in (this_storedFilePath this, this_thumbFilePath this, this_descrFilePath this,
        attempted st, thrown st, disk st (this_thumbFilePath this),
        disk st (this_descrFilePath this)))
   = (''/app/dQw4w9WgXcQ.m4a'', ''/app/dQw4w9WgXcQ.m4a.jpg'', ''/app/dQw4w9WgXcQ-descr.txt'',
      [''/app/dQw4w9WgXcQ.m4a''], Some ENOENT, Some ''thumbnail'', Some ''description'')"
  by code_simp

section \<open>The size formatter\<close>

text \<open>
  C4, as the claim states it: 1,073,741,824 bytes format as \<^verbatim>\<open>1.0GB\<close>. The code
  passes the digits of \<^verbatim>\<open>toFixed(1)\<close> through \<^verbatim>\<open>parseFloat\<close>, which drops a
  decimal that is zero, and the text is \<^verbatim>\<open>1GB\<close>.
\<close>

theorem formatSize_gigabyte_counterexample:
  "formatSize 1073741824 \<noteq> ''1.0GB''"
  by (simp add: formatSize_eval)

text \<open>
  C4, amended. For a byte count from 1024 up to, and not including, \<open>1024\<^sup>4\<close>, the
  index \<open>i\<close> of the unit is the floor of the logarithm to base 1024 of the size in KB,
  it selects KB, MB or GB, and the number printed is the size in KB divided by
  \<open>1024\<^sup>i\<close>, rounded to one decimal place, ties upwards; a whole number is printed
  without a decimal, any other with one decimal digit. So 1,572,864 bytes format as
  \<^verbatim>\<open>1.5MB\<close> and 1,073,741,824 bytes as \<^verbatim>\<open>1GB\<close>.
\<close>

theorem formatSize_unit_and_decimal:
  "(1024 \<le> bytes \<and> bytes < 1024 ^ 4 \<longrightarrow>
      (let i = \<lfloor>log 1024 (real_of_int bytes / 1024)\<rfloor>
       in 0 \<le> i \<and> i \<le> 2 \<and>
          formatSize bytes =
            printTenths (toFixed1 (of_int bytes / 1024 / 1024 powi i)) @ sizes ! nat i))
   \<and> (\<forall>q. printTenths (10 * q) = numToString q)
   \<and> (\<forall>q r. 0 < r \<and> r < 10 \<longrightarrow> printTenths (10 * q + r) = numToString q @ ''.'' @ numToString r)
   \<and> formatSize 1572864 = ''1.5MB'' \<and> formatSize 1073741824 = ''1GB''"
proof (intro conjI impI allI)
  assume a: "1024 \<le> bytes \<and> bytes < 1024 ^ 4"
  define k where "k = floorLog1024 (nat bytes)"
  have pos: "0 < bytes" using a by simp
  have i: "\<lfloor>log 1024 (real_of_int bytes / 1024)\<rfloor> = int k - 1"
    unfolding k_def by (rule index_is_floor_log[OF pos])
  have b: "1024 ^ k \<le> nat bytes" "nat bytes < 1024 ^ Suc k"
    using floorLog1024_bounds[of "nat bytes"] pos unfolding k_def by simp_all
  have "1 \<le> k"
  proof (rule ccontr)
    assume "\<not> 1 \<le> k"
    then have "k = 0" by simp
    with b(2) a show False by (simp del: power_numeral) linarith
  qed
  moreover have "k \<le> 3"
  proof (rule ccontr)
    assume "\<not> k \<le> 3"
    then have "4 \<le> k" by simp
    then have "(1024 :: nat) ^ 4 \<le> 1024 ^ k" by (intro power_increasing) simp_all
    then have "(1024 :: nat) ^ 4 \<le> nat bytes" using b(1) by (rule order_trans)
    with a show False by simp linarith
  qed
  ultimately have k: "k = 1 \<or> k = 2 \<or> k = 3" by arith
  have "formatSize bytes =
          printTenths (toFixed1 (of_int bytes / 1024 / 1024 powi (int k - 1))) @ sizes ! (k - 1)"
    using pos k unfolding formatSize_def Let_def k_def[symmetric]
    by (auto simp: at_index_def sizes_def)
  then show "let i = \<lfloor>log 1024 (real_of_int bytes / 1024)\<rfloor>
       in 0 \<le> i \<and> i \<le> 2 \<and>
          formatSize bytes =
            printTenths (toFixed1 (of_int bytes / 1024 / 1024 powi i)) @ sizes ! nat i"
    unfolding Let_def i using k by auto
next
  fix q show "printTenths (10 * q) = numToString q" by (rule printTenths_whole)
next
  fix q r :: int assume "0 < r \<and> r < 10"
  then show "printTenths (10 * q + r) = numToString q @ ''.'' @ numToString r"
    by (simp add: printTenths_decimal)
next
  show "formatSize 1572864 = ''1.5MB''" by (simp add: formatSize_eval)
next
  show "formatSize 1073741824 = ''1GB''" by (simp add: formatSize_eval)
qed

theorem formatSize_unit_and_decimal_witness:
  "(1024 :: int) \<le> 1572864 \<and> (1572864 :: int) < 1024 ^ 4 \<and>
   0 \<le> \<lfloor>log 1024 (real_of_int 1572864 / 1024)\<rfloor> \<and>
   \<lfloor>log 1024 (real_of_int 1572864 / 1024)\<rfloor> \<le> 2 \<and> formatSize 1572864 = ''1.5MB''"
proof -
  have h: "(1024 :: int) \<le> 1572864 \<and> (1572864 :: int) < 1024 ^ 4" by simp
  note t = formatSize_unit_and_decimal[of 1572864]
  from mp[OF conjunct1[OF t] h]
  have "0 \<le> \<lfloor>log 1024 (real_of_int 1572864 / 1024)\<rfloor> \<and>
        \<lfloor>log 1024 (real_of_int 1572864 / 1024)\<rfloor> \<le> 2"
    unfolding Let_def by (elim conjE) (intro conjI)
  moreover from t have "formatSize 1572864 = ''1.5MB''" by (elim conjE)
  ultimately show ?thesis using h by (intro conjI) (elim conjE, assumption)+
qed

section \<open>The round trip of a selection\<close>

text \<open>
  C5. A selection whose video id and format id contain no \<^verbatim>\<open>|\<close>, encoded by the menu
  builder (the fields joined by \<^verbatim>\<open>|\<close>) and decoded by the callback query handler
  (the data split at \<^verbatim>\<open>|\<close>), comes back with the same format spec, duration, height,
  width and originating message id; the numbers come back through \<^verbatim>\<open>parseInt\<close>, and a
  width that is missing comes back as \<^verbatim>\<open>NaN\<close>. This holds for the button of a tier and
  for the Music button, whose height and width are empty.
\<close>

theorem selection_action_round_trip:
  assumes "CHR ''|'' \<notin> set vid" and "CHR ''|'' \<notin> set fid"
    and "CHR ''|'' \<notin> set (info_id info)"
  shows "(let this = CallbackQueryHandler cwd (tierData vid info m (fid, sz, h, w))
          in this_video_id this = vid \<and> this_format this = Some (fid @ ''+ba'')
             \<and> this_duration this = Some (numToString (duration info))
             \<and> parseIntOf (this_duration this) = Some (duration info)
             \<and> this_height this = Some (numToString h) \<and> parseIntOf (this_height this) = Some h
             \<and> this_width this = Some (optToString w) \<and> parseIntOf (this_width this) = w
             \<and> this_original_user_msg_id this = Some m \<and> \<not> this_isAudio this)
       \<and> (let this = CallbackQueryHandler cwd (musicData info m)
          in this_video_id this = info_id info \<and> this_format this = Some ''ba''
             \<and> this_duration this = Some (numToString (duration info))
             \<and> parseIntOf (this_duration this) = Some (duration info)
             \<and> this_height this = Some [] \<and> this_width this = Some []
             \<and> this_original_user_msg_id this = Some m \<and> this_isAudio this)"
proof -
  have "parseIntOf (Some (numToString i)) = Some i" for i
    by (simp add: parseIntOf_def parseInt_numToString)
  then show ?thesis
    unfolding CallbackQueryHandler_def Let_def
    by (simp add: tierData_split[OF assms(1,2)] musicData_split[OF assms(3)] at_index_def
          falsy_def numToString_not_Nil parseIntOf_optToString)
qed

theorem selection_action_round_trip_witness:
  "this_format (CallbackQueryHandler ''/app''
      (tierData ''dQw4w9WgXcQ''
         \<lparr> info_id = ''dQw4w9WgXcQ'', title = ''T'', uploader = ''U'', duration = 212,
            formats = [] \<rparr> 77 (''137'', 1000, 1080, Some 1920))) = Some ''137+ba''
   \<and> this_original_user_msg_id (CallbackQueryHandler ''/app''
      (tierData ''dQw4w9WgXcQ''
         \<lparr> info_id = ''dQw4w9WgXcQ'', title = ''T'', uploader = ''U'', duration = 212,
            formats = [] \<rparr> 77 (''137'', 1000, 1080, Some 1920))) = Some 77
   \<and> parseIntOf (this_width (CallbackQueryHandler ''/app''
      (tierData ''dQw4w9WgXcQ''
         \<lparr> info_id = ''dQw4w9WgXcQ'', title = ''T'', uploader = ''U'', duration = 212,
            formats = [] \<rparr> 77 (''137'', 1000, 1080, Some 1920)))) = Some 1920
   \<and> this_isAudio (CallbackQueryHandler ''/app''
      (musicData
         \<lparr> info_id = ''dQw4w9WgXcQ'', title = ''T'', uploader = ''U'', duration = 212,
            formats = [] \<rparr> 77))"
proof -
  let ?info = "\<lparr> info_id = ''dQw4w9WgXcQ'', title = ''T'', uploader = ''U'', duration = 212,
            formats = [] \<rparr>"
  have 1: "CHR ''|'' \<notin> set ''dQw4w9WgXcQ''" by simp
  have 2: "CHR ''|'' \<notin> set ''137''" by simp
  have 3: "CHR ''|'' \<notin> set (info_id ?info)" by simp
  from selection_action_round_trip[OF 1 2 3, of "''/app''" 77 1000 1080 "Some 1920"]
  show ?thesis unfolding Let_def by (elim conjE) (intro conjI; simp)
qed

section \<open>A format list without audio\<close>

text \<open>
  C6. The claim: with no audio-bearing entry of known file size in the format list, the
  menu is still built, and the entry that depends on the audio is left out or flagged.
  The code reads \<^verbatim>\<open>largest_audio.filesize\<close> with \<^verbatim>\<open>largest_audio\<close> undefined and
  throws: for a format list of one video-only entry no menu is built.
\<close>

theorem menu_without_audio_throws:
  "(let info = \<lparr> info_id = ''dQw4w9WgXcQ'', title = ''T'', uploader = ''U'', duration = 212,
        formats =
          [\<lparr> format_id = ''137'', vcodec = ''avc1'', acodec = ''none'', filesize = Some 1000,
              height = Some 1080, width = Some 1920 \<rparr>] \<rparr>
    in buildInlineKeyboard 77 info (processVideoInfo ''https://youtu.be/dQw4w9WgXcQ'' info))
   = Inl TypeError"
  by code_simp

section \<open>Title and performer of an audio message\<close>

text \<open>
  C7, as the claim states it: without a description file the title falls back to the video
  id and the performer to \<^verbatim>\<open>Unknown Artist\<close>. The code parses, and falls back, only
  under \<^verbatim>\<open>if (hasDescription)\<close>: without the file, title and performer are both empty.
\<close>

theorem audio_without_description_counterexample:
  "send (CallbackQueryHandler ''/app'' ''dQw4w9WgXcQ|ba|212|||77'') Map.empty
     = Inr (AudioMessage ''/app/dQw4w9WgXcQ.m4a'' [] [] (Some 212) ''/app/dQw4w9WgXcQ.m4a.jpg'')
   \<and> send (CallbackQueryHandler ''/app'' ''dQw4w9WgXcQ|ba|212|||77'') Map.empty
     \<noteq> Inr (AudioMessage ''/app/dQw4w9WgXcQ.m4a''
              (this_video_id (CallbackQueryHandler ''/app'' ''dQw4w9WgXcQ|ba|212|||77''))
              ''Unknown Artist'' (Some 212) ''/app/dQw4w9WgXcQ.m4a.jpg'')
   \<and> this_video_id (CallbackQueryHandler ''/app'' ''dQw4w9WgXcQ|ba|212|||77'') = ''dQw4w9WgXcQ''"
  by code_simp

text \<open>
  C7, amended. For an audio delivery: without a description file, title and performer are
  empty. With a description of two lines or more the assembler does not fail. For the
  description that the bot itself writes, the title is the video's title (the video id if
  the title is empty) and the performer is the uploader with the first \<^verbatim>\<open> - Topic\<close>
  removed (\<^verbatim>\<open>Unknown Artist\<close> if nothing is left), provided title and uploader
  contain no line terminator, the title does not start with white space and the uploader
  contains no \<^verbatim>\<open><\<close>. For a description of two lines of which the first does not
  start with \<^verbatim>\<open><b>[\<close> and the second not with \<^verbatim>\<open>By <b>\<close>, the title is the video id and
  the performer \<^verbatim>\<open>Unknown Artist\<close>.
\<close>

theorem audio_title_and_performer:
  assumes audio: "this_isAudio this"
  shows
    "(fs (this_descrFilePath this) = None \<longrightarrow>
        send this fs = Inr (AudioMessage (this_storedFilePath this) [] []
                              (parseIntOf (this_duration this)) (this_thumbFilePath this)))
     \<and> (fs (this_descrFilePath this) = Some text \<and> CHR 0x0A \<in> set text \<longrightarrow>
        (\<exists>t p. send this fs = Inr (AudioMessage (this_storedFilePath this) t p
                              (parseIntOf (this_duration this)) (this_thumbFilePath this))))
     \<and> (fs (this_descrFilePath this) = Some (videoDescr (processVideoInfo url info)) \<and>
        (title info = [] \<or> \<not> isSpace (hd (title info))) \<and>
        (\<forall>c \<in> set (title info). \<not> isLineTerminator c) \<and>
        (\<forall>c \<in> set (uploader info). \<not> isLineTerminator c \<and> c \<noteq> CHR ''<'') \<longrightarrow>
        send this fs = Inr (AudioMessage (this_storedFilePath this)
                              (or_else (Some (title info)) (this_video_id this))
                              (or_else (Some (replace (uploader info) '' - Topic'' []))
                                 ''Unknown Artist'')
                              (parseIntOf (this_duration this)) (this_thumbFilePath this)))
     \<and> (fs (this_descrFilePath this) = Some (line0 @ newline @ line1) \<and>
        CHR 0x0A \<notin> set line0 \<and> CHR 0x0A \<notin> set line1 \<and>
        \<not> prefix ''<b>['' line0 \<and> \<not> prefix ''By <b>'' line1 \<longrightarrow>
        send this fs = Inr (AudioMessage (this_storedFilePath this) (this_video_id this)
                              ''Unknown Artist''
                              (parseIntOf (this_duration this)) (this_thumbFilePath this)))"
proof (intro conjI impI)
  assume "fs (this_descrFilePath this) = None"
  then show "send this fs = Inr (AudioMessage (this_storedFilePath this) [] []
                              (parseIntOf (this_duration this)) (this_thumbFilePath this))"
    using audio by (simp add: send_def)
next
  assume a: "fs (this_descrFilePath this) = Some text \<and> CHR 0x0A \<in> set text"
  then have "\<exists>l0 l1 ls. split text [CHR 0x0A] = l0 # l1 # ls"
    by (intro split_two_lines) simp
  then obtain l0 l1 ls where sp: "split text newline = l0 # l1 # ls"
    unfolding newline_def by (elim exE)
  from a have "fs (this_descrFilePath this) = Some text" by simp
  from send_audio_lines[where fs = fs, OF audio this sp]
  show "\<exists>t p. send this fs = Inr (AudioMessage (this_storedFilePath this) t p
                              (parseIntOf (this_duration this)) (this_thumbFilePath this))"
    by (intro exI)
next
  assume a: "fs (this_descrFilePath this) = Some (videoDescr (processVideoInfo url info)) \<and>
        (title info = [] \<or> \<not> isSpace (hd (title info))) \<and>
        (\<forall>c \<in> set (title info). \<not> isLineTerminator c) \<and>
        (\<forall>c \<in> set (uploader info). \<not> isLineTerminator c \<and> c \<noteq> CHR ''<'')"
  define D where "D = getDurationString (duration info)"
  define l0 where "l0 = ''<b>['' @ D @ '']</b>'' @ '' '' @ title info"
  define l1 where "l1 = ''By <b>'' @ uploader info @ ''</b>'' @ []"
  have Dp: "\<forall>c \<in> set D. dot c \<and> c \<noteq> CHR '']''"
    unfolding D_def by (intro ballI) (rule getDurationString_plain)
  have Tp: "\<forall>c \<in> set (title info). dot c" and Up: "\<forall>c \<in> set (uploader info). dot c \<and> c \<noteq> CHR ''<''"
    using a by (simp_all add: dot_def)
  have "videoDescr (processVideoInfo url info) = l0 @ newline @ l1 @ newline @ url"
    by (simp add: processVideoInfo_def Let_def generateDescription_def l0_def l1_def D_def)
  moreover have nl: "CHR 0x0A \<notin> set l0" "CHR 0x0A \<notin> set l1"
  proof -
    have "CHR 0x0A \<notin> set D" "CHR 0x0A \<notin> set (title info)" "CHR 0x0A \<notin> set (uploader info)"
      using Dp Tp Up not_LF_of_dot by metis+
    then show "CHR 0x0A \<notin> set l0" "CHR 0x0A \<notin> set l1"
      unfolding l0_def l1_def by simp_all
  qed
  ultimately have "\<exists>ls. split (videoDescr (processVideoInfo url info)) newline = l0 # l1 # ls"
    using split_lines_more[OF nl, of url] by simp
  then obtain ls where sp: "split (videoDescr (processVideoInfo url info)) newline = l0 # l1 # ls"
    by (elim exE)
  have t: "exec_at titleRegex l0 = Some (l0, Some (title info))"
    unfolding l0_def by (rule exec_at_titleRegex) (use Dp Tp a in \<open>simp_all add: isSpace_def\<close>)
  have u: "exec_at authorRegex l1 = Some (''By <b>'' @ uploader info @ ''</b>'', Some (uploader info))"
    unfolding l1_def by (rule exec_at_authorRegex) (use Up in simp)
  from a have "fs (this_descrFilePath this) = Some (videoDescr (processVideoInfo url info))" by simp
  from send_audio_lines[where fs = fs, OF audio this sp]
  show "send this fs = Inr (AudioMessage (this_storedFilePath this)
                              (or_else (Some (title info)) (this_video_id this))
                              (or_else (Some (replace (uploader info) '' - Topic'' []))
                                 ''Unknown Artist'')
                              (parseIntOf (this_duration this)) (this_thumbFilePath this))"
    by (simp add: t u group1_def)
next
  assume a: "fs (this_descrFilePath this) = Some (line0 @ newline @ line1) \<and>
        CHR 0x0A \<notin> set line0 \<and> CHR 0x0A \<notin> set line1 \<and>
        \<not> prefix ''<b>['' line0 \<and> \<not> prefix ''By <b>'' line1"
  then have sp: "split (line0 @ newline @ line1) newline = line0 # line1 # []"
    using split_lines_two by simp
  have "exec_at titleRegex line0 = None" "exec_at authorRegex line1 = None"
    using a unfolding titleRegex_def authorRegex_def by (simp_all add: exec_at_miss)
  moreover from a have "fs (this_descrFilePath this) = Some (line0 @ newline @ line1)" by simp
  ultimately show "send this fs = Inr (AudioMessage (this_storedFilePath this) (this_video_id this)
                              ''Unknown Artist''
                              (parseIntOf (this_duration this)) (this_thumbFilePath this))"
    using send_audio_lines[where fs = fs, OF audio _ sp] by (simp add: group1_def or_else_def)
qed

theorem audio_title_and_performer_witness:
  "send (CallbackQueryHandler ''/app'' ''dQw4w9WgXcQ|ba|212|||77'')
     [''/app/dQw4w9WgXcQ-descr.txt'' \<mapsto>
        videoDescr (processVideoInfo ''https://youtu.be/dQw4w9WgXcQ''
          \<lparr> info_id = ''dQw4w9WgXcQ'', title = ''Never Gonna Give You Up'',
             uploader = ''Rick Astley - Topic'', duration = 212, formats = [] \<rparr>)]
   = Inr (AudioMessage ''/app/dQw4w9WgXcQ.m4a'' ''Never Gonna Give You Up'' ''Rick Astley''
            (Some 212) ''/app/dQw4w9WgXcQ.m4a.jpg'')"
proof -
  let ?h = "CallbackQueryHandler ''/app'' ''dQw4w9WgXcQ|ba|212|||77''"
  let ?info = "\<lparr> info_id = ''dQw4w9WgXcQ'', title = ''Never Gonna Give You Up'',
             uploader = ''Rick Astley - Topic'', duration = 212, formats = [] \<rparr>"
  let ?url = "''https://youtu.be/dQw4w9WgXcQ''"
  let ?fs = "[''/app/dQw4w9WgXcQ-descr.txt'' \<mapsto> videoDescr (processVideoInfo ?url ?info)]"
  have audio: "this_isAudio ?h" by code_simp
  have path: "this_descrFilePath ?h = ''/app/dQw4w9WgXcQ-descr.txt''" by code_simp
  have h: "?fs (this_descrFilePath ?h) = Some (videoDescr (processVideoInfo ?url ?info)) \<and>
        (title ?info = [] \<or> \<not> isSpace (hd (title ?info))) \<and>
        (\<forall>c \<in> set (title ?info). \<not> isLineTerminator c) \<and>
        (\<forall>c \<in> set (uploader ?info). \<not> isLineTerminator c \<and> c \<noteq> CHR ''<'')"
    unfolding path by (simp add: isSpace_def isLineTerminator_def)
  have vals: "this_storedFilePath ?h = ''/app/dQw4w9WgXcQ.m4a''"
    "this_thumbFilePath ?h = ''/app/dQw4w9WgXcQ.m4a.jpg''"
    "parseIntOf (this_duration ?h) = Some 212"
    "or_else (Some (title ?info)) (this_video_id ?h) = ''Never Gonna Give You Up''"
    "or_else (Some (replace (uploader ?info) '' - Topic'' [])) ''Unknown Artist'' = ''Rick Astley''"
    by code_simp+
  note t = audio_title_and_performer[OF audio, where fs = ?fs and url = ?url and info = ?info]
  from mp[OF conjunct1[OF conjunct2[OF conjunct2[OF t]]] h]
  show ?thesis unfolding vals .
qed

section \<open>Classifying a failed metadata fetch\<close>

text \<open>
  C8. A failed metadata fetch yields the bad-URL message exactly when the text of the
  error contains \<^verbatim>\<open>not a valid URL\<close>, and the message of the general category
  otherwise; the handler of a URL message and the handler of the \<^verbatim>\<open>/format\<close> command
  classify alike.
\<close>

theorem metadata_error_classification:
  "(URLMessageHandler_catch e = fullErrorMessage badURL e \<longleftrightarrow> sublist ''not a valid URL'' e)
   \<and> (URLMessageHandler_catch e = fullErrorMessage atGettingInfo e
        \<longleftrightarrow> \<not> sublist ''not a valid URL'' e)
   \<and> FormatCommandHandler_catch e = URLMessageHandler_catch e"
  using fullErrorMessage_distinct[of e e] fullErrorMessage_distinct[of e e, symmetric]
  by (simp add: URLMessageHandler_catch_def FormatCommandHandler_catch_def includes_str_sublist)

section \<open>The URL extractor\<close>

text \<open>
  C9. When a text holds a well-formed YouTube link (one of the prefixes, eleven id
  characters, then any characters that are not white space) that ends at white space or
  at the end of the text, and no link starts earlier in the text, the extractor returns
  that link as it stands, trailing characters included. When no link starts anywhere in
  the text, the extractor returns no match.
\<close>

theorem extractYoutubeURL_first_url:
  "(is_url_start url \<and> (\<forall>c \<in> set url. \<not> isSpace c) \<and> (post = [] \<or> isSpace (hd post)) \<and>
      (\<forall>k < length pre. \<not> is_url_start (drop k (pre @ url @ post)))
     \<longrightarrow> extractYoutubeURL (pre @ url @ post) = Some url)
   \<and> ((\<forall>k < length text. \<not> is_url_start (drop k text)) \<longrightarrow> extractYoutubeURL text = None)"
proof (intro conjI impI)
  assume a: "is_url_start url \<and> (\<forall>c \<in> set url. \<not> isSpace c) \<and> (post = [] \<or> isSpace (hd post)) \<and>
      (\<forall>k < length pre. \<not> is_url_start (drop k (pre @ url @ post)))"
  then have "\<forall>k < length pre. exec_at youtubeRegex (drop k (pre @ (url @ post))) = None"
    by (simp add: exec_at_youtubeRegex)
  then have "search youtubeRegex (pre @ (url @ post)) = search youtubeRegex (url @ post)"
    by (rule search_skip)
  moreover have "is_url_start (url @ post)"
  proof -
    from a obtain p where p: "p \<in> set url_prefixes" "prefix p url" "11 \<le> length url - length p"
      "\<forall>c \<in> set (take 11 (drop (length p) url)). isIdChar c"
      by (auto simp: is_url_start_def)
    then have "prefix p (url @ post) \<and> 11 \<le> length (url @ post) - length p \<and>
       (\<forall>c \<in> set (take 11 (drop (length p) (url @ post))). isIdChar c)"
      by (auto simp: prefix_def)
    then show ?thesis unfolding is_url_start_def using p(1) by blast
  qed
  moreover have "takeWhile nonSpace (url @ post) = url"
  proof -
    have "takeWhile nonSpace (url @ post) = url @ takeWhile nonSpace post"
      using a by (intro takeWhile_append2) (simp add: nonSpace_def)
    moreover have "takeWhile nonSpace post = []"
      using a by (cases post) (auto simp: nonSpace_def)
    ultimately show ?thesis by simp
  qed
  ultimately have "search youtubeRegex (pre @ url @ post) = Some (url, Some url)"
    using search_hit[of youtubeRegex "url @ post"] by (simp add: exec_at_youtubeRegex)
  then show "extractYoutubeURL (pre @ url @ post) = Some url"
    by (simp add: extractYoutubeURL_def)
next
  assume "\<forall>k < length text. \<not> is_url_start (drop k text)"
  then have "\<forall>k \<le> length text. \<not> is_url_start (drop k text)"
    using is_url_start_Nil by (metis drop_all le_neq_implies_less order_refl)
  then have "\<forall>k \<le> length text. exec_at youtubeRegex (drop k text) = None"
    by (simp add: exec_at_youtubeRegex)
  then have "search youtubeRegex text = None" by (rule search_none)
  then show "extractYoutubeURL text = None" by (simp add: extractYoutubeURL_def)
qed

theorem extractYoutubeURL_first_url_witness:
  "extractYoutubeURL ''see https://youtu.be/dQw4w9WgXcQ?feature=share ok'' =
     Some ''https://youtu.be/dQw4w9WgXcQ?feature=share''
   \<and> extractYoutubeURL ''no link'' = None"
proof -
  let ?pre = "''see ''" and ?url = "''https://youtu.be/dQw4w9WgXcQ?feature=share''"
  let ?post = "'' ok''" and ?text = "''no link''"
  have 1: "is_url_start ?url" by code_simp
  have 2: "\<forall>c \<in> set ?url. \<not> isSpace c" by code_simp
  have 3: "?post = [] \<or> isSpace (hd ?post)" by code_simp
  have 4: "\<forall>k < length ?pre. \<not> is_url_start (drop k (?pre @ ?url @ ?post))"
    by (rule all_less_upt) code_simp
  have 5: "\<forall>k < length ?text. \<not> is_url_start (drop k ?text)"
    by (rule all_less_upt) code_simp
  from extractYoutubeURL_first_url[of ?url ?post ?pre ?text] 1 2 3 4 5
  show ?thesis by simp
qed

section \<open>The format command without an argument\<close>

text \<open>
  C10. For the message whose text is exactly \<^verbatim>\<open>/format\<close>, the constructor of the
  format command handler throws (the extractor is applied to \<^verbatim>\<open>undefined\<close>); it does
  not mark the handler invalid and reply with the guidance, as the handler of a URL
  message does for the same text.
\<close>

theorem format_command_without_argument_throws:
  "FormatCommandHandler ''/format'' = Inl TypeError
   \<and> FormatCommandHandler ''/format'' \<noteq> Inr (Invalid guidance)
   \<and> URLMessageHandler ''/format'' = Invalid guidance"
  by code_simp

end
